(* ===== verification/Prelude.thy ===== *)
theory Prelude
  imports Complex_Main "HOL-Library.Multiset"
begin

text \<open>
  Shared vocabulary of the TinyLink development: the types that name the
  values the TypeScript code passes around (codes, URLs, timestamps, the
  sequence of values \<open>Math.random()\<close> returns), JavaScript truthiness of an
  optional request field, the rule collection of the store queries,
  and generic lemmas on lists and options that several components use.
\<close>

named_theorems store_simps "characteristic equations of the store operations"

type_synonym code_str = string
type_synonym url = string
type_synonym time = nat
  \<comment> \<open>a \<open>Date\<close>, as milliseconds since the epoch\<close>
type_synonym rng = "nat \<Rightarrow> rat"
  \<comment> \<open>the values successive calls of \<open>Math.random()\<close> return, by call index\<close>

text \<open>
  \<open>if (!x)\<close> on a JSON field: an absent field (\<open>undefined\<close>) and the empty
  string are falsy, any other string is truthy.
\<close>

definition js_truthy :: "string option \<Rightarrow> bool" where
  "js_truthy v = (case v of None \<Rightarrow> False | Some s \<Rightarrow> s \<noteq> [])"

lemma js_truthy_simps [simp]:
  "js_truthy None = False"
  "js_truthy (Some s) \<longleftrightarrow> s \<noteq> []"
  by (simp_all add: js_truthy_def)

subsection \<open>Decimal digits\<close>

text \<open>
  An ASCII digit, and the value of a string of them read as a decimal number,
  as the URL parser reads a port and \<open>Date.parse\<close> reads date fields.
\<close>

definition ascii_digit :: "char \<Rightarrow> bool" where
  "ascii_digit c \<longleftrightarrow> 48 \<le> (of_char c :: nat) \<and> of_char c \<le> (57 :: nat)"

definition digits_value :: "string \<Rightarrow> nat" where
  "digits_value ds = foldl (\<lambda>n c. 10 * n + (of_char c - 48)) 0 ds"

subsection \<open>Splitting strings\<close>

text \<open>
  Strict splitting on one character, as the URL standard splits a host on
  \<open>.\<close> and the router splits a path on \<open>/\<close>: \<open>n\<close> separators give
  \<open>n + 1\<close> pieces, empty ones included.
\<close>

fun split_on :: "char \<Rightarrow> string \<Rightarrow> string list" where
  "split_on d [] = [[]]"
| "split_on d (x # xs) = (let r = split_on d xs in if x = d then [] # r else (x # hd r) # tl r)"

subsection \<open>Lists and options\<close>

lemma split_on_none: "d \<notin> set s \<Longrightarrow> split_on d s = [s]"
  by (induction s) (auto simp: Let_def)

lemma find_Some_P:
  "find P xs = Some x \<Longrightarrow> x \<in> set xs \<and> P x"
  by (induction xs) (auto split: if_splits)

lemma find_map_eq:
  "(\<And>x. x \<in> set xs \<Longrightarrow> P (f x) = Q x) \<Longrightarrow> find P (map f xs) = map_option f (find Q xs)"
  by (induction xs) auto

lemma distinct_map_filter_sub:
  "distinct (map f xs) \<Longrightarrow> distinct (map f (filter P xs))"
  by (induction xs) auto

lemma find_distinct_key:
  assumes "distinct (map f xs)" and "x \<in> set xs"
  shows "find (\<lambda>y. f y = f x) xs = Some x"
  using assms by (induction xs) (auto simp: image_iff)

lemma filter_key_distinct:
  assumes "distinct (map f xs)" and "x \<in> set xs"
  shows "filter (\<lambda>y. f y = f x) xs = [x]"
  using assms by (induction xs) (auto simp: filter_empty_conv image_iff)

lemma map_of_keyed_Some:
  "map_of (map (\<lambda>x. (f x, x)) xs) k = Some y \<Longrightarrow> y \<in> set xs \<and> f y = k"
  by (induction xs) (auto split: if_splits)

lemma map_of_keyed_filter:
  "map_of (map (\<lambda>x. (f x, x)) (filter (\<lambda>x. f x \<noteq> k) xs)) = (map_of (map (\<lambda>x. (f x, x)) xs))(k := None)"
  by (induction xs) (auto simp: fun_eq_iff)

lemma map_keyed_update:
  "(\<And>x. g (h x) = g x) \<Longrightarrow> map g (map (\<lambda>x. if P x then h x else x) xs) = map g xs"
  by (induction xs) auto

subsection \<open>Runs of step relations\<close>

lemma rtranclp_four:
  "r a b \<Longrightarrow> r b c \<Longrightarrow> r c d \<Longrightarrow> r d e \<Longrightarrow> r\<^sup>*\<^sup>* a e"
  by (meson rtranclp.rtrancl_into_rtrancl rtranclp.rtrancl_refl)

lemma rtranclp_five:
  "r a b \<Longrightarrow> r b c \<Longrightarrow> r c d \<Longrightarrow> r d e \<Longrightarrow> r e f \<Longrightarrow> r\<^sup>*\<^sup>* a f"
  by (meson rtranclp.rtrancl_into_rtrancl rtranclp_four)

end
