(* ===== verification/Generator.thy ===== *)
theory Generator
  imports Prelude
begin

text \<open>
  \<open>generateRandomCode\<close> of \<open>src/lib/utils.ts\<close>: a \<open>for\<close> loop that appends
  \<open>chars.charAt(Math.floor(Math.random() * chars.length))\<close> once per
  iteration. The random source is the sequence of values \<open>Math.random()\<close>
  returns (type \<open>rng\<close>), read from an index that the generator advances;
  the result pairs the code with the next index. Floating-point rounding of
  the product is not modelled: draws are rationals.
\<close>

definition chars :: string where
  "chars = ''ABCDEFGHIJKLMNOPQRSTUVWXYZabcdefghijklmnopqrstuvwxyz0123456789''"

text \<open>\<open>String.prototype.charAt\<close>: the empty string outside the string.\<close>

definition charAt :: "string \<Rightarrow> int \<Rightarrow> string" where
  "charAt s i = (if 0 \<le> i \<and> i < int (length s) then [s ! nat i] else [])"

text \<open>
  The \<open>for\<close> loop of \<open>generateRandomCode\<close>: \<open>i\<close> counts the iterations,
  \<open>pos\<close> is the index of the next \<open>Math.random()\<close> value, \<open>code\<close> the string
  built so far.
\<close>

function gen_loop :: "rng \<Rightarrow> nat \<Rightarrow> nat \<Rightarrow> nat \<Rightarrow> string \<Rightarrow> string \<times> nat" where
  "gen_loop rnd pos i len code =
     (if i < len
      then gen_loop rnd (Suc pos) (Suc i) len
             (code @ charAt chars \<lfloor>rnd pos * of_nat (length chars)\<rfloor>)
      else (code, pos))"
  by pat_completeness auto
termination
  by (relation "measure (\<lambda>(rnd, pos, i, len, code). len - i)") auto

declare gen_loop.simps [simp del]

definition generateRandomCode :: "rng \<Rightarrow> nat \<Rightarrow> nat \<Rightarrow> string \<times> nat" where
  "generateRandomCode rnd pos len = gen_loop rnd pos 0 len []"

text \<open>The contract of \<open>Math.random()\<close>: a value in \<open>[0, 1)\<close>.\<close>

definition valid_draw :: "rat \<Rightarrow> bool" where
  "valid_draw r \<longleftrightarrow> 0 \<le> r \<and> r < 1"

definition valid_draws :: "rng \<Rightarrow> nat \<Rightarrow> nat \<Rightarrow> bool" where
  "valid_draws rnd pos n \<longleftrightarrow> (\<forall>k<n. valid_draw (rnd (pos + k)))"

text \<open>Reference definition: one character per draw, independently.\<close>

definition code_of_draws :: "rng \<Rightarrow> nat \<Rightarrow> nat \<Rightarrow> string" where
  "code_of_draws rnd pos len =
     concat (map (\<lambda>k. charAt chars \<lfloor>rnd (pos + k) * of_nat (length chars)\<rfloor>) [0..<len])"

section \<open>Properties\<close>

lemma length_chars [simp]: "length chars = 62"
  by (simp add: chars_def)

lemma code_of_draws_0 [simp]: "code_of_draws rnd pos 0 = []"
  by (simp add: code_of_draws_def)

lemma code_of_draws_Suc:
  "code_of_draws rnd pos (Suc n) =
     charAt chars \<lfloor>rnd pos * of_nat (length chars)\<rfloor> @ code_of_draws rnd (Suc pos) n"
  by (simp add: code_of_draws_def upt_conv_Cons map_Suc_upt[symmetric] comp_def del: upt_Suc)

lemma gen_loop_eq:
  "gen_loop rnd pos i len code = (code @ code_of_draws rnd pos (len - i), pos + (len - i))"
proof (induction rnd pos i len code rule: gen_loop.induct)
  case (1 rnd pos i len code)
  show ?case
  proof (cases "i < len")
    case True
    then have "len - i = Suc (len - Suc i)" by arith
    with True "1.IH" show ?thesis
      by (simp add: gen_loop.simps [of rnd pos i len code] code_of_draws_Suc)
  next
    case False
    then show ?thesis by (simp add: gen_loop.simps [of rnd pos i len code])
  qed
qed

lemma generateRandomCode_eq:
  "generateRandomCode rnd pos len = (code_of_draws rnd pos len, pos + len)"
  by (simp add: generateRandomCode_def gen_loop_eq)

lemma charAt_valid_draw:
  assumes "valid_draw r"
  shows "charAt chars \<lfloor>r * of_nat (length chars)\<rfloor> = [chars ! nat \<lfloor>r * 62\<rfloor>]
         \<and> nat \<lfloor>r * 62\<rfloor> < 62"
proof -
  have lo: "0 \<le> \<lfloor>r * 62\<rfloor>" using assms by (simp add: valid_draw_def)
  have hi: "\<lfloor>r * 62\<rfloor> < 62" using assms by (simp add: valid_draw_def floor_less_iff)
  have n: "nat \<lfloor>r * 62\<rfloor> < 62" using lo hi by arith
  show ?thesis using lo hi n by (simp add: charAt_def)
qed

lemma code_of_draws_valid:
  "valid_draws rnd pos len \<Longrightarrow>
     length (code_of_draws rnd pos len) = len \<and> set (code_of_draws rnd pos len) \<subseteq> set chars"
proof (induction len arbitrary: pos)
  case 0
  then show ?case by simp
next
  case (Suc len)
  from Suc.prems have d: "valid_draw (rnd pos)" and ds: "valid_draws rnd (Suc pos) len"
    by (auto simp: valid_draws_def)
  from charAt_valid_draw [OF d] have c: "nat \<lfloor>rnd pos * 62\<rfloor> < 62"
    and e: "charAt chars \<lfloor>rnd pos * of_nat (length chars)\<rfloor> = [chars ! nat \<lfloor>rnd pos * 62\<rfloor>]"
    by auto
  have "chars ! nat \<lfloor>rnd pos * 62\<rfloor> \<in> set chars"
    using c by (simp add: nth_mem)
  with Suc.IH [OF ds] e show ?case by (simp add: code_of_draws_Suc)
qed

text \<open>
  Claim C34: a valid draw \<open>r\<close> yields the \<open>k\<close>-th character of the alphabet
  exactly when \<open>r\<close> lies in \<open>[k/62, (k+1)/62)\<close>: every character is drawn from
  an interval of the same width, so a uniform \<open>Math.random()\<close> picks each
  of the 62 characters with probability 1/62.
\<close>

theorem charAt_draw_interval:
  assumes "valid_draw r" and "k < 62"
  shows "charAt chars \<lfloor>r * of_nat (length chars)\<rfloor> = [chars ! k] \<longleftrightarrow>
           of_nat k / 62 \<le> r \<and> r < of_nat (Suc k) / 62"
proof -
  have dist: "distinct chars" by (simp add: chars_def)
  have "charAt chars \<lfloor>r * of_nat (length chars)\<rfloor> = [chars ! k] \<longleftrightarrow> nat \<lfloor>r * 62\<rfloor> = k"
    using charAt_valid_draw [OF assms(1)] assms(2) dist by (simp add: nth_eq_iff_index_eq)
  also have "\<dots> \<longleftrightarrow> \<lfloor>r * 62\<rfloor> = int k"
    using assms(1) by (auto simp: valid_draw_def)
  also have "\<dots> \<longleftrightarrow> of_nat k / 62 \<le> r \<and> r < of_nat (Suc k) / 62"
    by (simp add: floor_eq_iff field_simps)
  finally show ?thesis .
qed

text \<open>
  Claim C9: when the draws it consumes satisfy the \<open>Math.random()\<close>
  contract, \<open>generateRandomCode\<close> returns a code of exactly the requested
  length over the 62-character alphabet and advances the random source by
  one draw per character.
\<close>

theorem generateRandomCode_correct:
  "valid_draws rnd pos len \<Longrightarrow> generateRandomCode rnd pos len = (code, pos') \<Longrightarrow>
     length code = len \<and> set code \<subseteq> set chars \<and> pos' = pos + len"
proof -
  assume v: "valid_draws rnd pos len" and g: "generateRandomCode rnd pos len = (code, pos')"
  from g have "code = code_of_draws rnd pos len" and "pos' = pos + len"
    by (simp_all add: generateRandomCode_eq)
  with code_of_draws_valid [OF v] show ?thesis by simp
qed

text \<open>
  Claim C33: the loop of \<open>generateRandomCode\<close> computes the same code as the
  reference definition that maps each of the \<open>len\<close> draws independently to
  \<open>chars.charAt(floor(r * 62))\<close> and concatenates the results.
\<close>

theorem generateRandomCode_reference:
  "generateRandomCode rnd pos len =
     (concat (map (\<lambda>k. charAt chars \<lfloor>rnd (pos + k) * 62\<rfloor>) [0..<len]), pos + len)"
  by (simp add: generateRandomCode_def gen_loop_eq code_of_draws_def)

subsection \<open>Witnesses\<close>

theorem generateRandomCode_correct_witness:
  "valid_draws (\<lambda>_. 0) 0 6 \<and> generateRandomCode (\<lambda>_. 0) 0 6 = (''AAAAAA'', 6) \<and>
   length ''AAAAAA'' = 6 \<and> set ''AAAAAA'' \<subseteq> set chars"
proof -
  have v: "valid_draws (\<lambda>_. 0) 0 6" by (simp add: valid_draws_def valid_draw_def)
  have g: "generateRandomCode (\<lambda>_. 0) 0 6 = (''AAAAAA'', 6)" by code_simp
  from generateRandomCode_correct [OF v g] v g show ?thesis by simp
qed

theorem charAt_draw_interval_witness:
  "charAt chars \<lfloor>(1 / 2 :: rat) * of_nat (length chars)\<rfloor> = [chars ! 31]"
proof -
  have v: "valid_draw (1 / 2)" by (simp add: valid_draw_def)
  have "of_nat 31 / 62 \<le> (1 / 2 :: rat) \<and> (1 / 2 :: rat) < of_nat (Suc 31) / 62" by simp
  with charAt_draw_interval [OF v, of 31] show ?thesis by simp
qed

end
