(* ===== verification/Validator.thy ===== *)
theory Validator
  imports Generator
begin

text \<open>
  The validators of \<open>src/lib/utils.ts\<close>. \<open>isValidCode\<close> runs the regular
  expression \<open>/^[A-Za-z0-9]{6,8}$/\<close>; it is modelled by the expression's
  syntax tree (\<open>code_regex\<close>) and a backtracking matcher with the semantics
  of \<open>RegExp.prototype.test\<close> for a regular expression without flags.
  \<open>isValidUrl\<close> reports whether the WHATWG \<open>URL\<close> constructor accepts the
  string; the constructor belongs to the runtime, not to this repository,
  and is modelled from the URL standard (see the URL section).
\<close>

section \<open>Regular expressions: \<open>/^[A-Za-z0-9]{6,8}$/.test(code)\<close>\<close>

text \<open>
  The regular expressions the source writes: anchors, character classes
  given by ranges, sequence and bounded repetition \<open>{n,m}\<close>.
  \<open>rx_match r s i\<close> lists the positions where a match of \<open>r\<close> starting at
  position \<open>i\<close> of \<open>s\<close> can end, in the backtracking order of the JavaScript
  engine (greedy repetition first). \<open>regex_test\<close> tries every start
  position, as \<open>test\<close> does for a regular expression without flags.
\<close>

datatype rx =
    RBol
  | REol
  | RClass "(char \<times> char) list"
  | RSeq rx rx
  | RRepeat rx nat nat

definition in_ranges :: "(char \<times> char) list \<Rightarrow> char \<Rightarrow> bool" where
  "in_ranges rs c =
     list_ex (\<lambda>(lo, hi). of_char lo \<le> (of_char c :: nat) \<and> of_char c \<le> (of_char hi :: nat)) rs"

fun rep_bound :: "rx \<Rightarrow> nat" where
  "rep_bound (RRepeat r n m) = m"
| "rep_bound _ = 0"

function rx_match :: "rx \<Rightarrow> string \<Rightarrow> nat \<Rightarrow> nat list" where
  "rx_match RBol s i = (if i = 0 then [i] else [])"
| "rx_match REol s i = (if i = length s then [i] else [])"
| "rx_match (RClass rs) s i = (if i < length s \<and> in_ranges rs (s ! i) then [Suc i] else [])"
| "rx_match (RSeq r1 r2) s i = concat (map (rx_match r2 s) (rx_match r1 s i))"
| "rx_match (RRepeat r n m) s i =
     (if m = 0 then []
      else concat (map (rx_match (RRepeat r (n - 1) (m - 1)) s) (rx_match r s i)))
     @ (if n = 0 then [i] else [])"
  by pat_completeness auto
termination
  by (relation "measures [\<lambda>(r, s, i). size r, \<lambda>(r, s, i). rep_bound r]") auto

definition regex_test :: "rx \<Rightarrow> string \<Rightarrow> bool" where
  "regex_test r s = list_ex (\<lambda>i. rx_match r s i \<noteq> []) [0..<Suc (length s)]"

definition alnum_ranges :: "(char \<times> char) list" where
  "alnum_ranges = [(CHR ''A'', CHR ''Z''), (CHR ''a'', CHR ''z''), (CHR ''0'', CHR ''9'')]"

definition code_regex :: rx where
  "code_regex = RSeq RBol (RSeq (RRepeat (RClass alnum_ranges) 6 8) REol)"

definition isValidCode :: "string \<Rightarrow> bool" where
  "isValidCode code = regex_test code_regex code"

section \<open>URL validation: \<open>new URL(url)\<close>\<close>

text \<open>
  The WHATWG URL parser, as far as it decides whether \<open>new URL(url)\<close>
  throws when no base URL is given. Leading and trailing C0 controls and
  spaces are stripped and ASCII tab and newline removed; a scheme is an
  ASCII letter followed by letters, digits, \<open>+\<close>, \<open>-\<close> or \<open>.\<close> and a colon
  (no scheme is a failure, there being no base). For the special schemes
  other than \<open>file\<close> the authority after any run of slashes and backslashes
  must give a non-empty host without forbidden domain code points, which is
  an IPv4 address when it ends in a number, and a port of at most five
  digits not above 65535; a \<open>file\<close> URL written with a host must have one
  the same host parser accepts; a non-special URL written with an authority
  (\<open>//\<close>) must have a host without forbidden host code points, none missing
  after a \<open>@\<close> or before a port, and a valid port.
  Not modelled: percent-decoding of hosts (a host with \<open>%\<close> is rejected,
  where \<open>new URL\<close> decodes it), IDNA processing beyond lower-casing ASCII
  (a label \<open>xn--\<close> is not checked as Punycode), IPv6 addresses (a host in
  brackets is rejected), and the path, query and fragment, which never
  make the constructor fail.
\<close>

definition c0_or_space :: "char \<Rightarrow> bool" where
  "c0_or_space c \<longleftrightarrow> of_char c \<le> (32::nat)"

definition tab_or_newline :: "char \<Rightarrow> bool" where
  "tab_or_newline c \<longleftrightarrow> c \<in> set [CHR 0x09, CHR 0x0A, CHR 0x0D]"

definition url_preprocess :: "string \<Rightarrow> string" where
  "url_preprocess s =
     filter (\<lambda>c. \<not> tab_or_newline c) (rev (dropWhile c0_or_space (rev (dropWhile c0_or_space s))))"

definition ascii_alpha :: "char \<Rightarrow> bool" where
  "ascii_alpha c \<longleftrightarrow>
     (65 \<le> (of_char c :: nat) \<and> of_char c \<le> (90 :: nat)) \<or> (97 \<le> (of_char c :: nat) \<and> of_char c \<le> (122 :: nat))"

definition scheme_char :: "char \<Rightarrow> bool" where
  "scheme_char c \<longleftrightarrow> ascii_alpha c \<or> ascii_digit c \<or> c \<in> set ''+-.''"

definition ascii_lower :: "char \<Rightarrow> char" where
  "ascii_lower c =
     (if 65 \<le> (of_char c :: nat) \<and> of_char c \<le> (90 :: nat) then char_of (of_char c + (32 :: nat)) else c)"

definition special_schemes :: "string list" where
  "special_schemes = [''ftp'', ''file'', ''http'', ''https'', ''ws'', ''wss'']"

definition forbidden_host_cp :: "char \<Rightarrow> bool" where
  "forbidden_host_cp c \<longleftrightarrow>
     c \<in> set [CHR 0x00, CHR 0x09, CHR 0x0A, CHR 0x0D, CHR '' '', CHR ''#'', CHR ''/'', CHR '':'',
              CHR ''<'', CHR ''>'', CHR ''?'', CHR ''@'', CHR ''['', CHR 0x5C, CHR '']'', CHR ''^'', CHR ''|'']"

definition forbidden_domain_cp :: "char \<Rightarrow> bool" where
  "forbidden_domain_cp c \<longleftrightarrow>
     forbidden_host_cp c \<or> of_char c \<le> (31 :: nat) \<or> c = CHR ''%'' \<or> of_char c = (127 :: nat)"

text \<open>
  The host a URL ends up with: a domain (lower-cased), an IPv4 address, the
  opaque host of a non-special URL, or the empty host of a \<open>file\<close> URL.
\<close>

datatype host = Domain string | IPv4 nat | Opaque string | EmptyHost

record url_rec =
  url_scheme :: string
  url_host :: "host option"
  url_port :: "nat option"
  url_rest :: string

text \<open>Port state: empty is the default port, otherwise digits up to 65535.\<close>

definition parse_port :: "string \<Rightarrow> nat option option" where
  "parse_port p =
     (if p = [] then Some None
      else if list_all ascii_digit p \<and> digits_value p \<le> 65535 then Some (Some (digits_value p))
      else None)"

text \<open>
  The IPv4 number parser: a non-empty part is hexadecimal after \<open>0x\<close> or
  \<open>0X\<close>, octal after a leading \<open>0\<close>, decimal otherwise; nothing after the
  prefix reads as 0, and a digit outside the radix is a failure.
\<close>

definition hex_val :: "char \<Rightarrow> nat" where
  "hex_val c =
     (let n = of_char c :: nat in
      if 48 \<le> n \<and> n \<le> 57 then n - 48
      else if 97 \<le> n \<and> n \<le> 102 then n - 87
      else if 65 \<le> n \<and> n \<le> 70 then n - 55 else 16)"

definition radix_value :: "nat \<Rightarrow> string \<Rightarrow> nat option" where
  "radix_value r s =
     (if list_all (\<lambda>c. hex_val c < r) s then Some (foldl (\<lambda>n c. r * n + hex_val c) 0 s) else None)"

definition ipv4_number :: "string \<Rightarrow> nat option" where
  "ipv4_number s =
     (if s = [] then None
      else if 2 \<le> length s \<and> take 2 s \<in> set [''0x'', ''0X''] then radix_value 16 (drop 2 s)
      else if 2 \<le> length s \<and> hd s = CHR ''0'' then radix_value 8 (tl s)
      else radix_value 10 s)"

text \<open>The parts of a host split strictly on \<open>.\<close>, one trailing empty part dropped.\<close>

definition host_parts :: "string \<Rightarrow> string list" where
  "host_parts s =
     (let ps = split_on (CHR ''.'') s in if last ps = [] \<and> 1 < length ps then butlast ps else ps)"

text \<open>A domain \<^emph>\<open>ends in a number\<close> when its last part is all digits or an IPv4 number.\<close>

definition ends_in_number :: "string \<Rightarrow> bool" where
  "ends_in_number s =
     (let l = last (host_parts s) in (l \<noteq> [] \<and> list_all ascii_digit l) \<or> ipv4_number l \<noteq> None)"

text \<open>
  The IPv4 parser: at most four numbers, all but the last below 256, the last
  below \<open>256 ^ (5 - n)\<close>; the address is the last number plus the others
  shifted into the high bytes.
\<close>

definition ipv4_parse :: "string \<Rightarrow> nat option" where
  "ipv4_parse s =
     (let ps = host_parts s in
      if 4 < length ps then None
      else (case those (map ipv4_number ps) of
              None \<Rightarrow> None
            | Some ns \<Rightarrow>
                if list_ex (\<lambda>n. 255 < n) (butlast ns) \<or> 256 ^ (5 - length ns) \<le> last ns then None
                else Some (last ns + sum_list (map (\<lambda>i. ns ! i * 256 ^ (3 - i)) [0..<length ns - 1]))))"

text \<open>
  The host parser for a special URL, on an ASCII host: domain-to-ASCII lower-cases
  it (an empty result is a failure), a forbidden domain code point is a failure,
  and a domain that ends in a number must parse as an IPv4 address.
\<close>

definition parse_domain :: "string \<Rightarrow> host option" where
  "parse_domain h =
     (let d = map ascii_lower h in
      if d = [] \<or> list_ex forbidden_domain_cp d then None
      else if ends_in_number d then map_option IPv4 (ipv4_parse d)
      else Some (Domain d))"

text \<open>The authority of a URL: userinfo up to the last \<open>@\<close>, host, port.\<close>

definition split_authority :: "string \<Rightarrow> string \<times> string option" where
  "split_authority auth =
     (let hp = (if CHR ''@'' \<in> set auth then rev (takeWhile (\<lambda>c. c \<noteq> CHR ''@'') (rev auth)) else auth);
          h = takeWhile (\<lambda>c. c \<noteq> CHR '':'') hp
      in (h, if length h < length hp then Some (drop (Suc (length h)) hp) else None))"

definition parse_special_authority :: "string \<Rightarrow> (host \<times> nat option) option" where
  "parse_special_authority auth =
     (let (h, p) = split_authority auth
      in (case parse_domain h of
            None \<Rightarrow> None
          | Some hv \<Rightarrow> (case p of
                          None \<Rightarrow> Some (hv, None)
                        | Some ps \<Rightarrow> map_option (\<lambda>port. (hv, port)) (parse_port ps))))"

text \<open>
  The authority of a non-special URL written with \<open>//\<close>: a \<open>@\<close> with
  nothing after it and a \<open>:\<close> with no host before it are failures, the
  opaque host must be free of forbidden host code points, and the port is
  read as for special URLs.
\<close>

definition parse_opaque_authority :: "string \<Rightarrow> (host \<times> nat option) option" where
  "parse_opaque_authority auth =
     (let (h, p) = split_authority auth
      in if CHR ''@'' \<in> set auth \<and> h = [] \<and> p = None then None
         else if h = [] \<and> p \<noteq> None then None
         else if list_ex forbidden_host_cp h then None
         else (case p of
                 None \<Rightarrow> Some (Opaque h, None)
               | Some ps \<Rightarrow> map_option (\<lambda>port. (Opaque h, port)) (parse_port ps)))"

definition is_slash :: "char \<Rightarrow> bool" where
  "is_slash c \<longleftrightarrow> c = CHR ''/'' \<or> c = CHR 0x5C"

text \<open>A Windows drive letter: an ASCII letter and \<open>:\<close> or \<open>|\<close>.\<close>

definition drive_letter :: "string \<Rightarrow> bool" where
  "drive_letter s \<longleftrightarrow> length s = 2 \<and> ascii_alpha (s ! 0) \<and> s ! 1 \<in> set [CHR '':'', CHR ''|'']"

text \<open>
  After the scheme's colon. A special URL other than \<open>file\<close> skips any run
  of slashes and backslashes and parses its authority. A \<open>file\<close> URL has a
  host only after two slashes: none, a drive letter, or a host the special
  host parser accepts (\<open>localhost\<close> becomes the empty host). A non-special
  URL has an authority only after \<open>//\<close>.
\<close>

definition url_after_scheme :: "string \<Rightarrow> string \<Rightarrow> url_rec option" where
  "url_after_scheme sch after =
     (if sch \<in> set special_schemes then
        (if sch = ''file'' then
           (if 2 \<le> length after \<and> is_slash (after ! 0) \<and> is_slash (after ! 1) then
              (let auth = takeWhile (\<lambda>c. \<not> is_slash c \<and> c \<notin> set ''?#'') (drop 2 after);
                   r = drop (2 + length auth) after
               in if auth = [] \<or> drive_letter auth then
                    Some \<lparr>url_scheme = sch, url_host = Some EmptyHost, url_port = None, url_rest = drop 2 after\<rparr>
                  else map_option
                         (\<lambda>hv. \<lparr>url_scheme = sch, url_host = Some (if hv = Domain ''localhost'' then EmptyHost else hv),
                               url_port = None, url_rest = r\<rparr>)
                         (parse_domain auth))
            else Some \<lparr>url_scheme = sch, url_host = Some EmptyHost, url_port = None, url_rest = after\<rparr>)
         else
           (let a = dropWhile is_slash after;
                auth = takeWhile (\<lambda>c. \<not> is_slash c \<and> c \<notin> set ''?#'') a
            in map_option
                 (\<lambda>(h, port). \<lparr>url_scheme = sch, url_host = Some h, url_port = port,
                               url_rest = drop (length auth) a\<rparr>)
                 (parse_special_authority auth)))
      else if take 2 after = ''//'' then
        (let auth = takeWhile (\<lambda>c. c \<notin> set ''/?#'') (drop 2 after)
         in map_option
              (\<lambda>(h, port). \<lparr>url_scheme = sch, url_host = Some h, url_port = port,
                            url_rest = drop (2 + length auth) after\<rparr>)
              (parse_opaque_authority auth))
      else Some \<lparr>url_scheme = sch, url_host = None, url_port = None, url_rest = after\<rparr>)"

definition url_parse :: "string \<Rightarrow> url_rec option" where
  "url_parse s =
     (let t = url_preprocess s; sch = takeWhile scheme_char t; r = dropWhile scheme_char t
      in if sch = [] \<or> \<not> ascii_alpha (hd sch) then None
         else (case r of
                 [] \<Rightarrow> None
               | c # after \<Rightarrow> if c = CHR '':'' then url_after_scheme (map ascii_lower sch) after else None))"

text \<open>Host characters of the URLs \<open>isValidUrl_https\<close> accepts: letters, digits, dot, hyphen.\<close>

definition host_chars :: string where
  "host_chars = chars @ ''.-''"

text \<open>
  \<open>isValidUrl\<close>: \<open>try { new URL(url); return true } catch { return false }\<close>.
\<close>

definition isValidUrl :: "string \<Rightarrow> bool" where
  "isValidUrl u = (case url_parse u of None \<Rightarrow> False | Some _ \<Rightarrow> True)"

section \<open>Properties of the code validator\<close>

declare rx_match.simps(5) [simp del]

lemma rx_match_repeat_0 [simp]:
  "rx_match (RRepeat r n 0) s i = (if n = 0 then [i] else [])"
  by (subst rx_match.simps) simp

lemma rx_match_repeat_Suc [simp]:
  "rx_match (RRepeat r n (Suc m)) s i =
     concat (map (rx_match (RRepeat r (n - 1) m) s) (rx_match r s i)) @ (if n = 0 then [i] else [])"
  by (subst rx_match.simps) simp

lemma all_range_Suc:
  "(\<forall>k. i \<le> k \<and> k < j \<longrightarrow> P k) \<longleftrightarrow> (j \<le> i \<or> (P i \<and> (\<forall>k. Suc i \<le> k \<and> k < j \<longrightarrow> P k)))"
proof
  assume "\<forall>k. i \<le> k \<and> k < j \<longrightarrow> P k"
  then show "j \<le> i \<or> (P i \<and> (\<forall>k. Suc i \<le> k \<and> k < j \<longrightarrow> P k))"
    by (cases "j \<le> i") auto
next
  assume r: "j \<le> i \<or> (P i \<and> (\<forall>k. Suc i \<le> k \<and> k < j \<longrightarrow> P k))"
  show "\<forall>k. i \<le> k \<and> k < j \<longrightarrow> P k"
  proof (intro allI impI)
    fix k assume k: "i \<le> k \<and> k < j"
    show "P k"
    proof (cases "k = i")
      case True then show ?thesis using r k by auto
    next
      case False then show ?thesis using r k by auto
    qed
  qed
qed

lemma mem_rx_match_repeat_class:
  "i \<le> length s \<Longrightarrow> j \<in> set (rx_match (RRepeat (RClass rs) n m) s i) \<longleftrightarrow>
     i + n \<le> j \<and> j \<le> i + m \<and> j \<le> length s \<and> (\<forall>k. i \<le> k \<and> k < j \<longrightarrow> in_ranges rs (s ! k))"
proof (induction m arbitrary: n i)
  case 0
  then show ?case by auto
next
  case (Suc m)
  show ?case
  proof (cases "i < length s \<and> in_ranges rs (s ! i)")
    case True
    then have "j \<in> set (rx_match (RRepeat (RClass rs) n (Suc m)) s i) \<longleftrightarrow>
      j \<in> set (rx_match (RRepeat (RClass rs) (n - 1) m) s (Suc i)) \<or> (n = 0 \<and> j = i)"
      by auto
    also have "\<dots> \<longleftrightarrow> (Suc i + (n - 1) \<le> j \<and> j \<le> Suc i + m \<and> j \<le> length s \<and>
        (\<forall>k. Suc i \<le> k \<and> k < j \<longrightarrow> in_ranges rs (s ! k))) \<or> (n = 0 \<and> j = i)"
      using True Suc.IH[of "Suc i" "n - 1"] by simp
    also have "\<dots> \<longleftrightarrow> i + n \<le> j \<and> j \<le> i + Suc m \<and> j \<le> length s \<and>
        (\<forall>k. i \<le> k \<and> k < j \<longrightarrow> in_ranges rs (s ! k))"
      using True Suc.prems by (subst all_range_Suc) auto
    finally show ?thesis .
  next
    case False
    then have "j \<in> set (rx_match (RRepeat (RClass rs) n (Suc m)) s i) \<longleftrightarrow> n = 0 \<and> j = i"
      by auto
    also have "\<dots> \<longleftrightarrow> i + n \<le> j \<and> j \<le> i + Suc m \<and> j \<le> length s \<and>
        (\<forall>k. i \<le> k \<and> k < j \<longrightarrow> in_ranges rs (s ! k))"
      using False Suc.prems by (subst all_range_Suc) auto
    finally show ?thesis .
  qed
qed

lemma in_alnum_ranges: "in_ranges alnum_ranges c \<longleftrightarrow> c \<in> set chars"
  by (cases c) (simp_all add: in_ranges_def alnum_ranges_def chars_def)

lemma rx_match_seq_nonempty:
  "rx_match (RSeq r1 r2) s i \<noteq> [] \<longleftrightarrow> (\<exists>j\<in>set (rx_match r1 s i). rx_match r2 s j \<noteq> [])"
  by auto

lemma regex_test_anchored:
  "regex_test (RSeq RBol r) s \<longleftrightarrow> rx_match r s 0 \<noteq> []"
  by (auto simp: regex_test_def list_ex_iff)

lemma rx_match_eol_nonempty:
  "rx_match (RSeq r REol) s i \<noteq> [] \<longleftrightarrow> length s \<in> set (rx_match r s i)"
  by auto

lemma isValidCode_chars:
  "isValidCode code \<longleftrightarrow> 6 \<le> length code \<and> length code \<le> 8 \<and> set code \<subseteq> set chars"
proof -
  have "isValidCode code \<longleftrightarrow> length code \<in> set (rx_match (RRepeat (RClass alnum_ranges) 6 8) code 0)"
    by (simp only: isValidCode_def code_regex_def regex_test_anchored rx_match_eol_nonempty)
  also have "\<dots> \<longleftrightarrow> 6 \<le> length code \<and> length code \<le> 8 \<and>
      (\<forall>k. k < length code \<longrightarrow> in_ranges alnum_ranges (code ! k))"
    by (simp add: mem_rx_match_repeat_class)
  also have "\<dots> \<longleftrightarrow> 6 \<le> length code \<and> length code \<le> 8 \<and> set code \<subseteq> set chars"
    by (simp add: in_alnum_ranges subset_code(1) all_set_conv_all_nth)
  finally show ?thesis .
qed

lemma chars_ascii: "c \<in> set chars \<longleftrightarrow> ascii_alpha c \<or> ascii_digit c"
  by (cases c) (simp_all add: chars_def ascii_alpha_def ascii_digit_def)

text \<open>
  Claim C8: \<open>isValidCode\<close>, which runs \<open>/^[A-Za-z0-9]{6,8}$/.test\<close>, holds
  exactly for the strings of 6 to 8 characters that are all ASCII letters
  or digits.
\<close>

theorem isValidCode_spec:
  "isValidCode code \<longleftrightarrow>
     6 \<le> length code \<and> length code \<le> 8 \<and> (\<forall>x\<in>set code. ascii_alpha x \<or> ascii_digit x)"
  by (auto simp: isValidCode_chars chars_ascii)

section \<open>Properties of the URL validator\<close>

text \<open>
  Claim C35: \<open>isValidUrl\<close> accepts no string without a scheme: after the
  parser's preprocessing every accepted string starts with an ASCII letter
  followed by scheme characters and a colon.
\<close>

theorem isValidUrl_scheme:
  assumes "isValidUrl u"
  shows "\<exists>sch rest. url_preprocess u = sch @ CHR '':'' # rest \<and> sch \<noteq> [] \<and>
           ascii_alpha (hd sch) \<and> list_all scheme_char sch"
proof -
  let ?t = "url_preprocess u"
  let ?sch = "takeWhile scheme_char ?t"
  from assms obtain after where
    sch: "?sch \<noteq> []" "ascii_alpha (hd ?sch)" and r: "dropWhile scheme_char ?t = CHR '':'' # after"
    by (auto simp: isValidUrl_def url_parse_def Let_def split: if_splits list.splits option.splits)
  have "?t = ?sch @ CHR '':'' # after" using r by (metis takeWhile_dropWhile_id)
  moreover have "list_all scheme_char ?sch" by (auto simp: list_all_iff dest: set_takeWhileD)
  ultimately show ?thesis using sch by blast
qed

lemma tab_or_newline_c0: "tab_or_newline c \<Longrightarrow> c0_or_space c"
  by (auto simp: tab_or_newline_def c0_or_space_def)

lemma url_preprocess_id:
  assumes "list_all (\<lambda>c. \<not> c0_or_space c) s"
  shows "url_preprocess s = s"
proof -
  have d: "dropWhile c0_or_space xs = xs" if "list_all (\<lambda>c. \<not> c0_or_space c) xs" for xs
    using that by (cases xs) auto
  have "filter (\<lambda>c. \<not> tab_or_newline c) s = s"
    using assms by (auto simp: filter_id_conv list_all_iff dest: tab_or_newline_c0)
  then show ?thesis using assms by (simp add: url_preprocess_def d)
qed

lemma host_chars_props:
  "\<forall>c\<in>set host_chars. \<not> c0_or_space c \<and> \<not> forbidden_domain_cp c \<and>
     c \<notin> set [CHR ''/'', CHR 0x5C, CHR ''?'', CHR ''#''] \<and> c \<noteq> CHR ''@'' \<and> c \<noteq> CHR '':''"
  by (simp add: host_chars_def chars_def c0_or_space_def forbidden_domain_cp_def forbidden_host_cp_def)

lemma takeWhile_all_prefix:
  "\<forall>c\<in>set xs. P c \<Longrightarrow> ys = [] \<or> \<not> P (hd ys) \<Longrightarrow> takeWhile P (xs @ ys) = xs"
proof (induction xs)
  case Nil
  then show ?case by (cases ys) auto
qed simp

lemma host_chars_lower:
  assumes "c \<in> set host_chars"
  shows "ascii_lower c \<in> set host_chars"
proof (cases "65 \<le> (of_char c :: nat) \<and> of_char c \<le> (90 :: nat)")
  case True
  then have "of_char (ascii_lower c) = (of_char c + 32 :: nat)" by (simp add: ascii_lower_def)
  with True have "ascii_alpha (ascii_lower c)" by (simp add: ascii_alpha_def)
  then show ?thesis by (simp add: host_chars_def chars_ascii)
next
  case False
  with assms show ?thesis by (auto simp: ascii_lower_def)
qed

lemma parse_domain_host_chars:
  assumes "h \<noteq> []" and "set h \<subseteq> set host_chars"
  shows "parse_domain h =
           (if ends_in_number (map ascii_lower h) then map_option IPv4 (ipv4_parse (map ascii_lower h))
            else Some (Domain (map ascii_lower h)))"
proof -
  have "\<forall>c\<in>set (map ascii_lower h). \<not> forbidden_domain_cp c"
    using assms(2) host_chars_props host_chars_lower by auto
  then show ?thesis using assms(1) by (simp add: parse_domain_def Let_def list_ex_iff)
qed

text \<open>
  Claim C37: an \<open>https\<close> URL whose host is a non-empty string of letters,
  digits, dots and hyphens, followed by nothing or by a path, query or
  fragment without control characters or spaces, is accepted exactly when its
  host does not end in a number or parses as an IPv4 address: so
  \<open>https://example.com/\<close> and \<open>https://1.2.3.4/\<close> pass and
  \<open>https://999.999.999.999/\<close> fails. Hosts with an \<open>xn--\<close> label, which
  \<open>new URL\<close> checks as Punycode, are left out.
\<close>

theorem isValidUrl_https:
  assumes h: "h \<noteq> []" "set h \<subseteq> set host_chars"
    and idn: "\<not> list_ex (\<lambda>l. take 4 l = ''xn--'') (split_on (CHR ''.'') (map ascii_lower h))"
    and rest: "rest = [] \<or> hd rest \<in> set ''/?#''" "list_all (\<lambda>c. \<not> c0_or_space c) rest"
  shows "isValidUrl (''https://'' @ h @ rest) \<longleftrightarrow>
           (ends_in_number (map ascii_lower h) \<longrightarrow> ipv4_parse (map ascii_lower h) \<noteq> None)"
proof -
  have hc: "\<forall>c\<in>set h. \<not> c0_or_space c \<and> \<not> forbidden_domain_cp c \<and>
     c \<notin> set [CHR ''/'', CHR 0x5C, CHR ''?'', CHR ''#''] \<and> c \<noteq> CHR ''@'' \<and> c \<noteq> CHR '':''"
    using h(2) host_chars_props by blast
  have pre: "url_preprocess (''https://'' @ h @ rest) = ''https://'' @ h @ rest"
    using hc rest(2) by (intro url_preprocess_id) (auto simp: list_all_iff c0_or_space_def)
  have dw: "dropWhile is_slash (h @ rest) = h @ rest"
    using h(1) hc by (cases h) (auto simp: is_slash_def)
  have auth: "takeWhile (\<lambda>c. \<not> is_slash c \<and> c \<notin> set ''?#'') (h @ rest) = h"
    using hc rest(1) by (intro takeWhile_all_prefix) (auto simp: is_slash_def)
  have at: "CHR ''@'' \<notin> set h" and col: "takeWhile (\<lambda>c. c \<noteq> CHR '':'') h = h"
    using hc by (auto simp: takeWhile_eq_all_conv)
  have psa: "parse_special_authority h = map_option (\<lambda>hv. (hv, None)) (parse_domain h)"
    using at by (simp add: parse_special_authority_def split_authority_def Let_def col split: option.split)
  have "isValidUrl (''https://'' @ h @ rest) \<longleftrightarrow> url_after_scheme ''https'' (''//'' @ h @ rest) \<noteq> None"
    using pre by (simp add: isValidUrl_def url_parse_def scheme_char_def ascii_alpha_def
        ascii_digit_def ascii_lower_def split: option.splits)
  also have "\<dots> \<longleftrightarrow> parse_domain h \<noteq> None"
    using dw auth psa by (simp add: url_after_scheme_def special_schemes_def is_slash_def)
  finally show ?thesis using parse_domain_host_chars [OF h] by simp
qed

text \<open>
  The URL validator accepts URLs without a host, such as
  \<open>javascript:\<close> URLs, which the redirect handler later sends as the
  \<open>Location\<close> of a 302.
\<close>

theorem isValidUrl_javascript: "isValidUrl ''javascript:alert(1)''"
  by code_simp

subsection \<open>Witnesses\<close>

theorem isValidUrl_scheme_witness:
  "isValidUrl ''https://example.com/a'' \<and>
   (\<exists>sch rest. url_preprocess ''https://example.com/a'' = sch @ CHR '':'' # rest \<and> sch \<noteq> [] \<and>
      ascii_alpha (hd sch) \<and> list_all scheme_char sch)"
proof -
  have v: "isValidUrl ''https://example.com/a''" by code_simp
  from isValidUrl_scheme [OF v] v show ?thesis by blast
qed

theorem isValidCode_spec_witness:
  "isValidCode ''abc123'' \<and> \<not> isValidCode ''abc-23''"
  by (simp add: isValidCode_spec ascii_alpha_def ascii_digit_def)

theorem isValidUrl_https_witness:
  "isValidUrl (''https://'' @ ''example.com'' @ ''/a'') \<and> isValidUrl (''https://'' @ ''1.2.3.4'' @ ''/'') \<and>
   \<not> isValidUrl (''https://'' @ ''999.999.999.999'' @ ''/'')"
proof -
  have hc: "set ''example.com'' \<subseteq> set host_chars" "set ''1.2.3.4'' \<subseteq> set host_chars"
    "set ''999.999.999.999'' \<subseteq> set host_chars"
    by (simp_all add: host_chars_def chars_def)
  have r: "list_all (\<lambda>c. \<not> c0_or_space c) ''/a''" "list_all (\<lambda>c. \<not> c0_or_space c) ''/''"
    by (simp_all add: c0_or_space_def)
  have e1: "\<not> ends_in_number (map ascii_lower ''example.com'')" by code_simp
  have e2: "ipv4_parse (map ascii_lower ''1.2.3.4'') = Some 16909060"
    by (simp add: ascii_lower_def ipv4_parse_def host_parts_def ipv4_number_def radix_value_def hex_val_def Let_def)
  have e3: "ends_in_number (map ascii_lower ''999.999.999.999'') \<and> ipv4_parse (map ascii_lower ''999.999.999.999'') = None"
    by code_simp
  have n: "\<not> list_ex (\<lambda>l. take 4 l = ''xn--'') (split_on (CHR ''.'') (map ascii_lower ''example.com''))"
    "\<not> list_ex (\<lambda>l. take 4 l = ''xn--'') (split_on (CHR ''.'') (map ascii_lower ''1.2.3.4''))"
    "\<not> list_ex (\<lambda>l. take 4 l = ''xn--'') (split_on (CHR ''.'') (map ascii_lower ''999.999.999.999''))"
    by code_simp+
  show ?thesis
    using isValidUrl_https [of "''example.com''" "''/a''"] isValidUrl_https [of "''1.2.3.4''" "''/''"]
      isValidUrl_https [of "''999.999.999.999''" "''/''"] hc r n e1 e2 e3
    by simp
qed

end
