(* ===== verification/Store.thy ===== *)
theory Store
  imports Prelude
begin

text \<open>
  The Link Store: the \<open>Link\<close> table behind \<open>prisma.link\<close>. The Prisma schema
  and client are not among the sources, so the table and the five queries
  the route handlers issue (\<open>findUnique\<close>, \<open>create\<close>, \<open>update\<close>, \<open>delete\<close> and
  \<open>findMany\<close> ordered by \<open>createdAt\<close> descending) are modelled from the spec
  (sections 3, 4.3 and 6): a list of rows in insertion order, a counter for
  fresh ids, and a flag for whether the database can be reached. Each query
  is atomic and returns \<open>Inl\<close> of the Prisma error it raises.
\<close>

section \<open>Rows, errors and the table\<close>

record link =
  link_id :: nat
  code :: code_str
  targetUrl :: url
  clicks :: nat
  createdAt :: time
  lastClicked :: "time option"
  updatedAt :: time

datatype db_error =
    UniqueViolation   \<comment> \<open>P2002: the unique constraint on \<open>code\<close>\<close>
  | RecordNotFound    \<comment> \<open>P2025: \<open>update\<close> or \<open>delete\<close> of a missing row\<close>
  | Unavailable       \<comment> \<open>the database cannot be reached\<close>

record store =
  rows :: "link list"
  next_id :: nat
  connected :: bool

definition codes :: "store \<Rightarrow> code_str set" where
  "codes st = set (map code (rows st))"

section \<open>Queries\<close>

definition findUnique :: "store \<Rightarrow> code_str \<Rightarrow> db_error + link option" where
  "findUnique st c =
     (if \<not> connected st then Inl Unavailable else Inr (find (\<lambda>l. code l = c) (rows st)))"

definition new_link :: "store \<Rightarrow> time \<Rightarrow> code_str \<Rightarrow> url \<Rightarrow> link" where
  "new_link st now c u =
     \<lparr>link_id = next_id st, code = c, targetUrl = u, clicks = 0, createdAt = now,
      lastClicked = None, updatedAt = now\<rparr>"

definition create :: "store \<Rightarrow> time \<Rightarrow> code_str \<Rightarrow> url \<Rightarrow> db_error + link \<times> store" where
  "create st now c u =
     (if \<not> connected st then Inl Unavailable
      else if c \<in> codes st then Inl UniqueViolation
      else Inr (new_link st now c u,
                st\<lparr>rows := rows st @ [new_link st now c u], next_id := Suc (next_id st)\<rparr>))"

text \<open>
  \<open>update({where: {code}, data: {clicks: n, lastClicked: t}})\<close>; Prisma's
  \<open>@updatedAt\<close> sets \<open>updatedAt\<close> to the time of the query.
\<close>

definition set_clicks :: "time \<Rightarrow> nat \<Rightarrow> time \<Rightarrow> link \<Rightarrow> link" where
  "set_clicks now n t l = l\<lparr>clicks := n, lastClicked := Some t, updatedAt := now\<rparr>"

definition update_clicks ::
  "store \<Rightarrow> time \<Rightarrow> code_str \<Rightarrow> nat \<Rightarrow> time \<Rightarrow> db_error + link \<times> store" where
  "update_clicks st now c n t =
     (if \<not> connected st then Inl Unavailable
      else case find (\<lambda>l. code l = c) (rows st) of
        None \<Rightarrow> Inl RecordNotFound
      | Some l \<Rightarrow> Inr (set_clicks now n t l,
          st\<lparr>rows := map (\<lambda>l'. if code l' = c then set_clicks now n t l' else l') (rows st)\<rparr>))"

definition delete :: "store \<Rightarrow> code_str \<Rightarrow> db_error + link \<times> store" where
  "delete st c =
     (if \<not> connected st then Inl Unavailable
      else case find (\<lambda>l. code l = c) (rows st) of
        None \<Rightarrow> Inl RecordNotFound
      | Some l \<Rightarrow> Inr (l, st\<lparr>rows := filter (\<lambda>l'. code l' \<noteq> c) (rows st)\<rparr>))"

text \<open>
  \<open>findMany({orderBy: {createdAt: 'desc'}})\<close>: the rows newest first; rows
  created at the same instant come latest-inserted first (the database
  leaves their order open, and this is one of the orders it may return).
\<close>

definition findMany :: "store \<Rightarrow> db_error + link list" where
  "findMany st = (if \<not> connected st then Inl Unavailable else Inr (rev (sort_key createdAt (rows st))))"

section \<open>Abstraction and invariant\<close>

text \<open>The table seen as the map from codes to rows the spec describes.\<close>

definition store_map :: "store \<Rightarrow> code_str \<rightharpoonup> link" where
  "store_map st = map_of (map (\<lambda>l. (code l, l)) (rows st))"

definition clicked_ok :: "link \<Rightarrow> bool" where
  "clicked_ok l \<longleftrightarrow> (0 < clicks l \<longrightarrow> lastClicked l \<noteq> None)"

definition store_inv :: "store \<Rightarrow> bool" where
  "store_inv st \<longleftrightarrow>
     distinct (map code (rows st)) \<and>
     distinct (map link_id (rows st)) \<and>
     (\<forall>l\<in>set (rows st). link_id l < next_id st \<and> clicked_ok l)"

definition empty_store :: store where
  "empty_store = \<lparr>rows = [], next_id = 0, connected = True\<rparr>"

text \<open>A one-row table used by the witnesses of the component theorems.\<close>

definition example_link :: link where
  "example_link =
     \<lparr>link_id = 0, code = ''abc123'', targetUrl = ''https://example.com/a'', clicks = 0,
      createdAt = 0, lastClicked = None, updatedAt = 0\<rparr>"

definition example_store :: store where
  "example_store = \<lparr>rows = [example_link], next_id = 1, connected = True\<rparr>"

definition taken_store :: store where
  "taken_store = \<lparr>rows = [example_link\<lparr>code := ''AAAAAA''\<rparr>], next_id = 1, connected = True\<rparr>"

section \<open>Properties of the queries\<close>

lemma find_code_map_of:
  "find (\<lambda>l. code l = c) xs = map_of (map (\<lambda>l. (code l, l)) xs) c"
  by (induction xs) auto

lemma codes_dom: "codes st = dom (store_map st)"
  by (force simp: codes_def store_map_def dom_map_of_conv_image_fst)

lemma findUnique_map [store_simps]:
  "findUnique st c = (if connected st then Inr (store_map st c) else Inl Unavailable)"
  by (simp add: findUnique_def store_map_def find_code_map_of)

lemma store_map_Some:
  "store_map st c = Some l \<Longrightarrow> l \<in> set (rows st) \<and> code l = c"
  unfolding store_map_def by (rule map_of_keyed_Some)

lemma create_Inr [store_simps]:
  "create st now c u = Inr r \<longleftrightarrow>
     connected st \<and> c \<notin> codes st \<and>
     r = (new_link st now c u, st\<lparr>rows := rows st @ [new_link st now c u], next_id := Suc (next_id st)\<rparr>)"
  by (auto simp: create_def)

lemma store_map_create:
  assumes "create st now c u = Inr (l, st')"
  shows "store_map st' = (store_map st)(c \<mapsto> l)"
proof -
  from assms have c: "c \<notin> codes st" and st': "st' = st\<lparr>rows := rows st @ [l], next_id := Suc (next_id st)\<rparr>"
    and l: "l = new_link st now c u"
    by (auto simp: create_Inr)
  from c have "store_map st c = None" by (simp add: codes_dom domIff)
  then show ?thesis
    using st' l by (auto simp: store_map_def map_add_def new_link_def fun_eq_iff split: option.splits)
qed

lemma map_of_map_update_key:
  "map_of (map (\<lambda>l. (code l, l)) (map (\<lambda>l'. if code l' = c then f l' else l') xs)) =
   (\<lambda>k. if k = c then map_option f (map_of (map (\<lambda>l. (code l, l)) xs) c) else map_of (map (\<lambda>l. (code l, l)) xs) k)"
  if "\<And>l. code (f l) = code l"
  using that by (induction xs) (auto simp: fun_eq_iff)

lemma update_clicks_Inr [store_simps]:
  "update_clicks st now c n t = Inr r \<longleftrightarrow>
     connected st \<and> (\<exists>l. store_map st c = Some l \<and>
       r = (set_clicks now n t l,
            st\<lparr>rows := map (\<lambda>l'. if code l' = c then set_clicks now n t l' else l') (rows st)\<rparr>))"
  by (auto simp: update_clicks_def find_code_map_of store_map_def split: option.splits)

lemma update_clicks_Inl:
  "connected st \<Longrightarrow> update_clicks st now c n t = Inl e \<longleftrightarrow> c \<notin> codes st \<and> e = RecordNotFound"
  by (auto simp: update_clicks_def find_code_map_of codes_dom store_map_def split: option.splits)

lemma code_set_clicks [simp]: "code (set_clicks now n t l) = code l"
  by (simp add: set_clicks_def)

lemma set_clicks_twice [simp]: "set_clicks t n t (set_clicks t' m t' l) = set_clicks t n t l"
  by (simp add: set_clicks_def)

lemma clicks_set_clicks [simp]: "clicks (set_clicks now n t l) = n"
  by (simp add: set_clicks_def)

lemma targetUrl_set_clicks [simp]: "targetUrl (set_clicks now n t l) = targetUrl l"
  by (simp add: set_clicks_def)

lemma store_map_update_clicks:
  assumes "update_clicks st now c n t = Inr (l', st')"
  shows "store_map st' = (store_map st)(c \<mapsto> l') \<and> (\<exists>l. store_map st c = Some l \<and> l' = set_clicks now n t l)"
proof -
  from assms obtain l where l: "store_map st c = Some l" and l': "l' = set_clicks now n t l"
    and st': "st' = st\<lparr>rows := map (\<lambda>l'. if code l' = c then set_clicks now n t l' else l') (rows st)\<rparr>"
    by (auto simp: update_clicks_Inr)
  have "store_map st' = (store_map st)(c \<mapsto> l')"
    using l l' st' by (simp add: store_map_def map_of_map_update_key fun_eq_iff del: map_map)
  with l l' show ?thesis by blast
qed

lemma delete_Inr [store_simps]:
  "delete st c = Inr r \<longleftrightarrow>
     connected st \<and> (\<exists>l. store_map st c = Some l \<and> r = (l, st\<lparr>rows := filter (\<lambda>l'. code l' \<noteq> c) (rows st)\<rparr>))"
  by (auto simp: delete_def find_code_map_of store_map_def split: option.splits)

lemma store_map_delete:
  "delete st c = Inr (l, st') \<Longrightarrow> store_map st' = (store_map st)(c := None) \<and> store_map st c = Some l"
  by (auto simp: delete_Inr store_map_def map_of_keyed_filter)

lemma findMany_sorted:
  "findMany st = Inr ls \<Longrightarrow> sorted_wrt (\<lambda>a b. createdAt b \<le> createdAt a) ls \<and> mset ls = mset (rows st)"
  by (auto simp: findMany_def sorted_wrt_rev sorted_sort_key[unfolded sorted_map] split: if_splits)

lemma example_store_simps:
  "connected example_store" "store_map example_store ''abc123'' = Some example_link"
  "codes example_store = {''abc123''}" "store_inv example_store"
  by (simp_all add: example_store_def example_link_def store_map_def codes_def store_inv_def clicked_ok_def)

lemma store_inv_empty: "store_inv empty_store"
  by (simp add: store_inv_def empty_store_def)

lemma store_inv_create:
  "store_inv st \<Longrightarrow> create st now c u = Inr (l, st') \<Longrightarrow> store_inv st'"
  by (auto simp: create_Inr store_inv_def codes_def new_link_def clicked_ok_def less_Suc_eq)

lemma link_id_set_clicks [simp]: "link_id (set_clicks now n t l) = link_id l"
  by (simp add: set_clicks_def)

lemma clicked_ok_set_clicks [simp]: "clicked_ok (set_clicks now n t l)"
  by (simp add: set_clicks_def clicked_ok_def)

lemma store_inv_update_clicks:
  assumes inv: "store_inv st" and u: "update_clicks st now c n t = Inr (l, st')"
  shows "store_inv st'"
proof -
  from u have st': "rows st' = map (\<lambda>l'. if code l' = c then set_clicks now n t l' else l') (rows st)"
    and nid: "next_id st' = next_id st"
    by (auto simp: update_clicks_Inr)
  have "map code (rows st') = map code (rows st)" and "map link_id (rows st') = map link_id (rows st)"
    unfolding st' by (simp_all only: map_keyed_update code_set_clicks link_id_set_clicks)
  moreover have "\<forall>l\<in>set (rows st'). link_id l < next_id st' \<and> clicked_ok l"
    using inv unfolding st' nid store_inv_def by auto
  ultimately show ?thesis using inv by (simp add: store_inv_def)
qed

lemma store_inv_delete:
  "store_inv st \<Longrightarrow> delete st c = Inr (l, st') \<Longrightarrow> store_inv st'"
  by (auto simp: delete_Inr store_inv_def distinct_map_filter_sub)

end
