(* ===== verification/Handlers.thy ===== *)
theory Handlers
  imports Generator Validator Store
begin

text \<open>
  The route handlers of \<open>src/app\<close>: the redirect \<open>GET /[code]\<close>
  (\<open>app/[code]/route.ts\<close>), \<open>POST\<close> and \<open>GET /api/links\<close>
  (\<open>app/api/links/route.ts\<close>), and \<open>GET\<close> and \<open>DELETE /api/links/[code]\<close>
  (\<open>app/api/links/[code]/route.ts\<close>). Each handler is one function of the
  store, run as if no other request interleaved (the interleaved semantics
  is in theory \<open>Interleaving\<close>). Every \<open>return\<close> of the source is a branch;
  every Prisma error is caught by the handler's \<open>catch\<close> and answered 500.
  The server state pairs the store with the index of the next
  \<open>Math.random()\<close> value.
\<close>

section \<open>Responses and requests\<close>

datatype body =
    ErrorMsg string
  | LinkBody link
  | LinksBody "link list"
  | SuccessBody

datatype response =
    JsonResp nat body       \<comment> \<open>\<open>NextResponse.json(body, {status})\<close>\<close>
  | RedirectResp nat url    \<comment> \<open>\<open>NextResponse.redirect(url, {status})\<close>; sends \<open>new URL(url).href\<close>\<close>

text \<open>
  The parsed JSON body of \<open>POST /api/links\<close>: \<open>MalformedJson\<close> when
  \<open>request.json()\<close> throws or the destructuring of \<open>{targetUrl, code}\<close>
  fails; otherwise the two fields, \<open>None\<close> when absent. Fields holding
  non-string JSON values are not modelled.
\<close>

datatype post_body = MalformedJson | PostBody "string option" "string option"

record server =
  db :: store
  rng_pos :: nat

section \<open>Redirect: \<open>GET /[code]\<close>\<close>

text \<open>
  Read the row, then write \<open>clicks: link.clicks + 1\<close> computed from the row
  that was read, then redirect to the stored URL.
\<close>

definition redirect_GET :: "time \<Rightarrow> code_str \<Rightarrow> store \<Rightarrow> response \<times> store" where
  "redirect_GET now c st =
     (case findUnique st c of
        Inl _ \<Rightarrow> (JsonResp 500 (ErrorMsg ''Internal server error''), st)
      | Inr None \<Rightarrow> (JsonResp 404 (ErrorMsg ''Not found''), st)
      | Inr (Some l) \<Rightarrow>
          (case update_clicks st now c (clicks l + 1) now of
             Inl _ \<Rightarrow> (JsonResp 500 (ErrorMsg ''Internal server error''), st)
           | Inr (_, st') \<Rightarrow> (RedirectResp 302 (targetUrl l), st')))"

section \<open>Create: \<open>POST /api/links\<close>\<close>

text \<open>
  The collision loop \<open>while (await findUnique(shortCode)) shortCode =
  generateRandomCode();\<close>. It stops only when a free code is drawn (or a
  query fails), so it is a partial function: \<open>None\<close> is a loop that never
  ends. The result carries the index of the next random value.
\<close>

partial_function (option) find_free_code ::
  "rng \<Rightarrow> store \<Rightarrow> nat \<Rightarrow> code_str \<Rightarrow> ((db_error + code_str) \<times> nat) option" where
  "find_free_code rnd st pos c =
     (case findUnique st c of
        Inl e \<Rightarrow> Some (Inl e, pos)
      | Inr None \<Rightarrow> Some (Inr c, pos)
      | Inr (Some _) \<Rightarrow>
          (case generateRandomCode rnd pos 6 of (c', pos') \<Rightarrow> find_free_code rnd st pos' c'))"

definition create_link :: "time \<Rightarrow> code_str \<Rightarrow> url \<Rightarrow> server \<Rightarrow> response \<times> server" where
  "create_link now c u sv =
     (case create (db sv) now c u of
        Inl _ \<Rightarrow> (JsonResp 500 (ErrorMsg ''Failed to create link''), sv)
      | Inr (l, st') \<Rightarrow> (JsonResp 201 (LinkBody l), sv\<lparr>db := st'\<rparr>))"

definition post_explicit :: "time \<Rightarrow> code_str \<Rightarrow> url \<Rightarrow> server \<Rightarrow> response \<times> server" where
  "post_explicit now c u sv =
     (if \<not> isValidCode c then (JsonResp 400 (ErrorMsg ''Code must be 6-8 alphanumeric characters''), sv)
      else case findUnique (db sv) c of
        Inl _ \<Rightarrow> (JsonResp 500 (ErrorMsg ''Failed to create link''), sv)
      | Inr (Some _) \<Rightarrow> (JsonResp 409 (ErrorMsg ''Code already exists''), sv)
      | Inr None \<Rightarrow> create_link now c u sv)"

definition post_generated :: "rng \<Rightarrow> time \<Rightarrow> url \<Rightarrow> server \<Rightarrow> (response \<times> server) option" where
  "post_generated rnd now u sv =
     (case generateRandomCode rnd (rng_pos sv) 6 of
        (c0, p0) \<Rightarrow>
          (case find_free_code rnd (db sv) p0 c0 of
             None \<Rightarrow> None
           | Some (Inl _, p) \<Rightarrow> Some (JsonResp 500 (ErrorMsg ''Failed to create link''), sv\<lparr>rng_pos := p\<rparr>)
           | Some (Inr c, p) \<Rightarrow> Some (create_link now c u (sv\<lparr>rng_pos := p\<rparr>))))"

definition links_POST :: "rng \<Rightarrow> time \<Rightarrow> post_body \<Rightarrow> server \<Rightarrow> (response \<times> server) option" where
  "links_POST rnd now b sv =
     (case b of
        MalformedJson \<Rightarrow> Some (JsonResp 500 (ErrorMsg ''Failed to create link''), sv)
      | PostBody tu cd \<Rightarrow>
          (case tu of
             None \<Rightarrow> Some (JsonResp 400 (ErrorMsg ''targetUrl is required''), sv)
           | Some u \<Rightarrow>
               if u = [] then Some (JsonResp 400 (ErrorMsg ''targetUrl is required''), sv)
               else if \<not> isValidUrl u then Some (JsonResp 400 (ErrorMsg ''Invalid URL format''), sv)
               else (case cd of
                       Some c \<Rightarrow> if c \<noteq> [] then Some (post_explicit now c u sv)
                                 else post_generated rnd now u sv
                     | None \<Rightarrow> post_generated rnd now u sv)))"

section \<open>List, read and delete\<close>

definition links_GET :: "store \<Rightarrow> response" where
  "links_GET st =
     (case findMany st of
        Inl _ \<Rightarrow> JsonResp 500 (ErrorMsg ''Failed to fetch links'')
      | Inr ls \<Rightarrow> JsonResp 200 (LinksBody ls))"

definition link_GET :: "code_str \<Rightarrow> store \<Rightarrow> response" where
  "link_GET c st =
     (case findUnique st c of
        Inl _ \<Rightarrow> JsonResp 500 (ErrorMsg ''Failed to fetch link'')
      | Inr None \<Rightarrow> JsonResp 404 (ErrorMsg ''Link not found'')
      | Inr (Some l) \<Rightarrow> JsonResp 200 (LinkBody l))"

definition link_DELETE :: "code_str \<Rightarrow> store \<Rightarrow> response \<times> store" where
  "link_DELETE c st =
     (case findUnique st c of
        Inl _ \<Rightarrow> (JsonResp 500 (ErrorMsg ''Failed to delete link''), st)
      | Inr None \<Rightarrow> (JsonResp 404 (ErrorMsg ''Link not found''), st)
      | Inr (Some _) \<Rightarrow>
          (case delete st c of
             Inl _ \<Rightarrow> (JsonResp 500 (ErrorMsg ''Failed to delete link''), st)
           | Inr (_, st') \<Rightarrow> (JsonResp 200 SuccessBody, st')))"

text \<open>
  The code the collision loop tests on its \<open>k\<close>-th iteration, starting from
  the code \<open>c\<close> drawn before the loop and the random index \<open>pos\<close> after it.
\<close>

definition nth_attempt :: "rng \<Rightarrow> nat \<Rightarrow> code_str \<Rightarrow> nat \<Rightarrow> code_str" where
  "nth_attempt rnd pos c k = (if k = 0 then c else code_of_draws rnd (pos + 6 * (k - 1)) 6)"

definition example_server :: server where
  "example_server = \<lparr>db = empty_store, rng_pos = 0\<rparr>"

section \<open>The server: one request at a time\<close>

datatype request =
    GetRedirect code_str
  | PostLinks post_body
  | GetLinks
  | GetLink code_str
  | DeleteLink code_str

definition serve :: "rng \<Rightarrow> time \<Rightarrow> request \<Rightarrow> server \<Rightarrow> (response \<times> server) option" where
  "serve rnd now rq sv =
     (case rq of
        GetRedirect c \<Rightarrow> (case redirect_GET now c (db sv) of (r, st') \<Rightarrow> Some (r, sv\<lparr>db := st'\<rparr>))
      | PostLinks b \<Rightarrow> links_POST rnd now b sv
      | GetLinks \<Rightarrow> Some (links_GET (db sv), sv)
      | GetLink c \<Rightarrow> Some (link_GET c (db sv), sv)
      | DeleteLink c \<Rightarrow> (case link_DELETE c (db sv) of (r, st') \<Rightarrow> Some (r, sv\<lparr>db := st'\<rparr>)))"

section \<open>Well-formed rows\<close>

text \<open>
  What the create handler checks before it writes a row: a code of the
  validator's form and a non-empty URL the URL validator accepts.
\<close>

definition row_wf :: "link \<Rightarrow> bool" where
  "row_wf l \<longleftrightarrow> isValidCode (code l) \<and> targetUrl l \<noteq> [] \<and> isValidUrl (targetUrl l)"

definition rows_wf :: "store \<Rightarrow> bool" where
  "rows_wf st \<longleftrightarrow> (\<forall>l\<in>set (rows st). row_wf l)"

section \<open>Properties of the handlers\<close>

lemma redirect_GET_update:
  assumes "connected st" and "store_map st c = Some l"
  shows "\<exists>st'. redirect_GET now c st = (RedirectResp 302 (targetUrl l), st') \<and> connected st' \<and>
     store_map st' = (store_map st)(c \<mapsto> set_clicks now (Suc (clicks l)) now l)"
proof -
  obtain l' st' where u: "update_clicks st now c (clicks l + 1) now = Inr (l', st')"
    using assms by (auto simp: update_clicks_Inr)
  from store_map_update_clicks [OF u] assms(2)
  have "store_map st' = (store_map st)(c \<mapsto> set_clicks now (clicks l + 1) now l)" by auto
  moreover have "connected st'" using u by (auto simp: update_clicks_Inr)
  moreover have "redirect_GET now c st = (RedirectResp 302 (targetUrl l), st')"
    using assms u by (simp add: redirect_GET_def findUnique_map)
  ultimately show ?thesis by auto
qed

text \<open>
  Claim C1: redirecting a code that is in the table answers 302 with the stored
  URL, and the table afterwards maps the code to its row with one more
  click and \<open>lastClicked\<close> and \<open>updatedAt\<close> set to the time of the request;
  no other code changes.
\<close>

theorem redirect_GET_found:
  assumes "connected st" and "store_map st c = Some l"
  shows "\<exists>st'. redirect_GET now c st = (RedirectResp 302 (targetUrl l), st') \<and>
     store_map st' = (store_map st)(c \<mapsto> l\<lparr>clicks := Suc (clicks l), lastClicked := Some now, updatedAt := now\<rparr>)"
  using redirect_GET_update [OF assms, of now] by (auto simp: set_clicks_def)

lemma findUnique_connected [simp]:
  "connected st \<Longrightarrow> findUnique st c = Inr (store_map st c)"
  by (simp add: findUnique_map)

lemma find_free_code_unfold:
  "find_free_code rnd st pos c =
     (if \<not> connected st then Some (Inl Unavailable, pos)
      else if c \<notin> codes st then Some (Inr c, pos)
      else find_free_code rnd st (pos + 6) (code_of_draws rnd pos 6))"
  by (subst find_free_code.simps) (auto simp: findUnique_map codes_dom generateRandomCode_eq split: option.splits)

lemma nth_attempt_shift:
  "nth_attempt rnd (pos + 6) (code_of_draws rnd pos 6) j = nth_attempt rnd pos c (Suc j)"
  by (simp add: nth_attempt_def algebra_simps)

lemma find_free_code_Some_intro:
  assumes "connected st" and "\<forall>j<k. nth_attempt rnd pos c j \<in> codes st"
    and "nth_attempt rnd pos c k \<notin> codes st"
  shows "find_free_code rnd st pos c = Some (Inr (nth_attempt rnd pos c k), pos + 6 * k)"
  using assms(2,3)
proof (induction k arbitrary: pos c)
  case 0
  then show ?case using assms(1) by (simp add: find_free_code_unfold nth_attempt_def)
next
  case (Suc k)
  from Suc.prems(1) have c: "c \<in> codes st" by (auto simp: nth_attempt_def)
  have "find_free_code rnd st (pos + 6) (code_of_draws rnd pos 6) =
      Some (Inr (nth_attempt rnd (pos + 6) (code_of_draws rnd pos 6) k), pos + 6 + 6 * k)"
    by (rule Suc.IH) (use Suc.prems in \<open>simp_all add: nth_attempt_shift [of rnd pos _ c]\<close>)
  then show ?case using assms(1) c by (simp add: find_free_code_unfold nth_attempt_shift [of rnd pos _ c])
qed

lemma find_free_code_partial:
  assumes ret: "find_free_code rnd st pos c = Some r"
  shows "(\<exists>e. r = (Inl e, pos) \<and> \<not> connected st) \<or>
         (\<exists>k. (\<forall>j<k. nth_attempt rnd pos c j \<in> codes st) \<and> nth_attempt rnd pos c k \<notin> codes st \<and>
              r = (Inr (nth_attempt rnd pos c k), pos + 6 * k))"
proof (rule find_free_code.raw_induct [where P = "\<lambda>rnd st pos c r.
      (\<exists>e. r = (Inl e, pos) \<and> \<not> connected st) \<or>
      (\<exists>k. (\<forall>j<k. nth_attempt rnd pos c j \<in> codes st) \<and> nth_attempt rnd pos c k \<notin> codes st \<and>
           r = (Inr (nth_attempt rnd pos c k), pos + 6 * k))", OF _ ret])
  fix f rnd st pos c r
  assume IH: "\<And>rnd st pos c r. f rnd st pos c = Some r \<Longrightarrow>
      (\<exists>e. r = (Inl e, pos) \<and> \<not> connected st) \<or>
      (\<exists>k. (\<forall>j<k. nth_attempt rnd pos c j \<in> codes st) \<and> nth_attempt rnd pos c k \<notin> codes st \<and>
           r = (Inr (nth_attempt rnd pos c k), pos + 6 * k))"
    and eq: "(case findUnique st c of Inl e \<Rightarrow> Some (Inl e, pos)
      | Inr None \<Rightarrow> Some (Inr c, pos)
      | Inr (Some x) \<Rightarrow> case generateRandomCode rnd pos 6 of (c', pos') \<Rightarrow> f rnd st pos' c') = Some r"
  show "(\<exists>e. r = (Inl e, pos) \<and> \<not> connected st) \<or>
      (\<exists>k. (\<forall>j<k. nth_attempt rnd pos c j \<in> codes st) \<and> nth_attempt rnd pos c k \<notin> codes st \<and>
           r = (Inr (nth_attempt rnd pos c k), pos + 6 * k))"
  proof (cases "connected st")
    case False
    with eq have "r = (Inl Unavailable, pos)" by (simp add: findUnique_map)
    with False show ?thesis by blast
  next
    case True
    show ?thesis
    proof (cases "c \<in> codes st")
      case False
      with True eq have "r = (Inr c, pos)" by (simp add: codes_dom domIff)
      then show ?thesis using False by (intro disjI2 exI [of _ 0]) (simp add: nth_attempt_def)
    next
      case c: True
      with True eq have "f rnd st (pos + 6) (code_of_draws rnd pos 6) = Some r"
        by (auto simp: codes_dom generateRandomCode_eq)
      from IH [OF this] True obtain k where
        "\<forall>j<k. nth_attempt rnd pos c (Suc j) \<in> codes st" and "nth_attempt rnd pos c (Suc k) \<notin> codes st"
        and "r = (Inr (nth_attempt rnd pos c (Suc k)), pos + 6 * Suc k)"
        by (auto simp: nth_attempt_shift [of rnd pos _ c])
      moreover have "\<forall>j<Suc k. nth_attempt rnd pos c j \<in> codes st"
        using calculation(1) c by (auto simp: less_Suc_eq_0_disj nth_attempt_def)
      ultimately show ?thesis by blast
    qed
  qed
qed

lemma find_free_code_least:
  "connected st \<Longrightarrow> nth_attempt rnd pos c k \<notin> codes st \<Longrightarrow>
     \<exists>c' p. find_free_code rnd st pos c = Some (Inr c', p) \<and> c' \<notin> codes st"
proof -
  assume con: "connected st" and free: "nth_attempt rnd pos c k \<notin> codes st"
  define k0 where "k0 = (LEAST k. nth_attempt rnd pos c k \<notin> codes st)"
  have "nth_attempt rnd pos c k0 \<notin> codes st" unfolding k0_def by (rule LeastI [of _ k]) (rule free)
  moreover have "\<forall>j<k0. nth_attempt rnd pos c j \<in> codes st" unfolding k0_def using not_less_Least by blast
  ultimately show ?thesis using find_free_code_Some_intro [OF con] by blast
qed

lemma find_free_code_None_D:
  assumes none: "find_free_code rnd st pos c = None"
  shows "connected st \<and> (\<forall>k. nth_attempt rnd pos c k \<in> codes st)"
proof -
  have con: "connected st"
    using none by (subst (asm) find_free_code_unfold) (auto split: if_splits)
  moreover have "\<forall>k. nth_attempt rnd pos c k \<in> codes st"
    using find_free_code_least [OF con, of rnd pos c] none by auto
  ultimately show ?thesis ..
qed

text \<open>
  Claim C7: the collision loop of \<open>POST /api/links\<close> fails to terminate
  exactly when the database is reachable and every code it draws is taken.
\<close>

theorem find_free_code_None_iff:
  "find_free_code rnd st pos c = None \<longleftrightarrow> connected st \<and> (\<forall>k. nth_attempt rnd pos c k \<in> codes st)"
proof
  assume "find_free_code rnd st pos c = None"
  then show "connected st \<and> (\<forall>k. nth_attempt rnd pos c k \<in> codes st)" by (rule find_free_code_None_D)
next
  assume all: "connected st \<and> (\<forall>k. nth_attempt rnd pos c k \<in> codes st)"
  show "find_free_code rnd st pos c = None"
  proof (rule ccontr)
    assume "find_free_code rnd st pos c \<noteq> None"
    then obtain r where "find_free_code rnd st pos c = Some r" by blast
    from find_free_code_partial [OF this] all show False by auto
  qed
qed

lemma nth_attempt_valid:
  assumes "\<forall>k. valid_draw (rnd k)" and "length c = 6 \<and> set c \<subseteq> set chars"
  shows "length (nth_attempt rnd pos c k) = 6 \<and> set (nth_attempt rnd pos c k) \<subseteq> set chars"
proof (cases k)
  case 0
  then show ?thesis using assms(2) by (simp add: nth_attempt_def)
next
  case (Suc j)
  have "valid_draws rnd (pos + 6 * j) 6" using assms(1) by (simp add: valid_draws_def)
  then show ?thesis using Suc by (simp add: nth_attempt_def code_of_draws_valid)
qed

lemma create_link_201:
  "create_link now c u sv = (JsonResp 201 (LinkBody l), sv') \<Longrightarrow>
     c \<notin> codes (db sv) \<and> l = new_link (db sv) now c u \<and>
     store_map (db sv') = (store_map (db sv))(c \<mapsto> l) \<and> rng_pos sv' = rng_pos sv"
proof -
  assume h: "create_link now c u sv = (JsonResp 201 (LinkBody l), sv')"
  then obtain st' where cr: "create (db sv) now c u = Inr (l, st')" and sv': "sv' = sv\<lparr>db := st'\<rparr>"
    by (auto simp: create_link_def split: sum.splits)
  from cr have "c \<notin> codes (db sv) \<and> l = new_link (db sv) now c u" by (simp add: create_Inr)
  with store_map_create [OF cr] sv' show ?thesis by simp
qed

lemma post_generated_201:
  assumes "post_generated rnd now u sv = Some (JsonResp 201 (LinkBody l), sv')"
  shows "\<exists>k. create_link now (nth_attempt rnd (rng_pos sv + 6) (code_of_draws rnd (rng_pos sv) 6) k) u
           (sv\<lparr>rng_pos := rng_pos sv + 6 + 6 * k\<rparr>) = (JsonResp 201 (LinkBody l), sv')"
proof -
  let ?c0 = "code_of_draws rnd (rng_pos sv) 6"
  from assms obtain c p where
    ff: "find_free_code rnd (db sv) (rng_pos sv + 6) ?c0 = Some (Inr c, p)" and
    cl: "create_link now c u (sv\<lparr>rng_pos := p\<rparr>) = (JsonResp 201 (LinkBody l), sv')"
    by (auto simp: post_generated_def generateRandomCode_eq split: option.splits sum.splits)
  from find_free_code_partial [OF ff] obtain k where
    "c = nth_attempt rnd (rng_pos sv + 6) ?c0 k" and "p = rng_pos sv + 6 + 6 * k"
    by auto
  with cl show ?thesis by blast
qed

lemma links_POST_valid_url:
  "u \<noteq> [] \<Longrightarrow> isValidUrl u \<Longrightarrow>
     links_POST rnd now (PostBody (Some u) cd) sv =
       (if js_truthy cd then Some (post_explicit now (the cd) u sv) else post_generated rnd now u sv)"
  by (simp add: links_POST_def split: option.splits)

lemma links_POST_201_url:
  "links_POST rnd now (PostBody (Some u) cd) sv = Some (JsonResp 201 b, sv') \<Longrightarrow> u \<noteq> [] \<and> isValidUrl u"
  by (auto simp: links_POST_def split: if_splits)

lemma links_POST_generated_row:
  assumes draws: "\<forall>k. valid_draw (rnd k)"
    and post: "links_POST rnd now (PostBody (Some u) None) sv = Some (JsonResp 201 (LinkBody l), sv')"
  shows "length (code l) = 6 \<and> set (code l) \<subseteq> set chars \<and> code l \<notin> codes (db sv) \<and>
         targetUrl l = u \<and> clicks l = 0 \<and> lastClicked l = None \<and>
         store_map (db sv') = (store_map (db sv))(code l \<mapsto> l)"
proof -
  from links_POST_201_url [OF post] have "u \<noteq> [] \<and> isValidUrl u" .
  with post have pg: "post_generated rnd now u sv = Some (JsonResp 201 (LinkBody l), sv')"
    by (simp add: links_POST_valid_url)
  let ?c0 = "code_of_draws rnd (rng_pos sv) 6"
  from post_generated_201 [OF pg] obtain k where
    cl: "create_link now (nth_attempt rnd (rng_pos sv + 6) ?c0 k) u
           (sv\<lparr>rng_pos := rng_pos sv + 6 + 6 * k\<rparr>) = (JsonResp 201 (LinkBody l), sv')"
    by blast
  have "valid_draws rnd (rng_pos sv) 6" using draws by (simp add: valid_draws_def)
  then have "length ?c0 = 6 \<and> set ?c0 \<subseteq> set chars" by (rule code_of_draws_valid)
  from nth_attempt_valid [OF draws this]
  have v: "length (nth_attempt rnd (rng_pos sv + 6) ?c0 k) = 6 \<and>
           set (nth_attempt rnd (rng_pos sv + 6) ?c0 k) \<subseteq> set chars" .
  from create_link_201 [OF cl] v show ?thesis by (auto simp: new_link_def)
qed

text \<open>
  Claim C4: a link created without a code gets a 6-character code that passes
  \<open>isValidCode\<close> and was not in the table; the row starts with no clicks and
  the requested URL, and the table gains exactly that row.
\<close>

theorem links_POST_generated:
  assumes draws: "\<forall>k. valid_draw (rnd k)"
    and post: "links_POST rnd now (PostBody (Some u) None) sv = Some (JsonResp 201 (LinkBody l), sv')"
  shows "length (code l) = 6 \<and> isValidCode (code l) \<and> code l \<notin> codes (db sv) \<and>
         targetUrl l = u \<and> clicks l = 0 \<and> lastClicked l = None \<and>
         store_map (db sv') = (store_map (db sv))(code l \<mapsto> l)"
  using links_POST_generated_row [OF draws post] by (simp add: isValidCode_chars)

lemma post_explicit_fresh:
  "connected (db sv) \<Longrightarrow> isValidCode c \<Longrightarrow> c \<notin> codes (db sv) \<Longrightarrow>
     post_explicit now c u sv = create_link now c u sv"
  by (simp add: post_explicit_def codes_dom domIff)

lemma post_explicit_taken:
  "connected (db sv) \<Longrightarrow> isValidCode c \<Longrightarrow> c \<in> codes (db sv) \<Longrightarrow>
     post_explicit now c u sv = (JsonResp 409 (ErrorMsg ''Code already exists''), sv)"
  by (auto simp: post_explicit_def codes_dom)

lemma isValidCode_nonempty: "isValidCode c \<Longrightarrow> c \<noteq> []"
  by (auto simp: isValidCode_chars)

lemma create_link_fresh:
  assumes "connected (db sv)" and "c \<notin> codes (db sv)"
  shows "create_link now c u sv =
           (JsonResp 201 (LinkBody (new_link (db sv) now c u)),
            sv\<lparr>db := db sv\<lparr>rows := rows (db sv) @ [new_link (db sv) now c u], next_id := Suc (next_id (db sv))\<rparr>\<rparr>)"
  using assms by (simp add: create_link_def create_def)

text \<open>
  Claim C5: creating two links with the same explicit valid code answers 201
  to the first and 409 to the second, and the table holds exactly one row
  with that code.
\<close>

theorem links_POST_duplicate_code:
  assumes inv: "store_inv (db sv)" and con: "connected (db sv)"
    and urls: "u \<noteq> []" "isValidUrl u" "u' \<noteq> []" "isValidUrl u'"
    and c: "isValidCode c" "c \<notin> codes (db sv)"
    and p1: "links_POST rnd now (PostBody (Some u) (Some c)) sv = Some (r1, sv1)"
    and p2: "links_POST rnd now' (PostBody (Some u') (Some c)) sv1 = Some (r2, sv2)"
  shows "r1 = JsonResp 201 (LinkBody (new_link (db sv) now c u)) \<and>
         r2 = JsonResp 409 (ErrorMsg ''Code already exists'') \<and> sv2 = sv1 \<and>
         length (filter (\<lambda>l. code l = c) (rows (db sv2))) = 1"
proof -
  have ne: "c \<noteq> []" using c(1) by (rule isValidCode_nonempty)
  from p1 urls(1,2) ne c con have r1: "(r1, sv1) = create_link now c u sv"
    by (simp add: links_POST_valid_url post_explicit_fresh)
  let ?l = "new_link (db sv) now c u"
  from r1 create_link_fresh [OF con c(2)] have
    r1': "r1 = JsonResp 201 (LinkBody ?l)" and
    sv1: "db sv1 = db sv\<lparr>rows := rows (db sv) @ [?l], next_id := Suc (next_id (db sv))\<rparr>"
    by auto
  have cr: "create (db sv) now c u = Inr (?l, db sv1)" using con c(2) sv1 by (simp add: create_def)
  have inv1: "store_inv (db sv1)" by (rule store_inv_create [OF inv cr])
  have con1: "connected (db sv1)" and in1: "c \<in> codes (db sv1)"
    using sv1 con by (simp_all add: codes_def new_link_def)
  from p2 urls(3,4) ne c(1) con1 in1 have r2: "r2 = JsonResp 409 (ErrorMsg ''Code already exists'') \<and> sv2 = sv1"
    by (simp add: links_POST_valid_url post_explicit_taken)
  have "filter (\<lambda>l. code l = c) (rows (db sv1)) = [?l]"
    using filter_key_distinct [of code "rows (db sv1)" ?l] inv1 sv1
    by (simp add: store_inv_def new_link_def)
  with r1' r2 show ?thesis by simp
qed

lemma redirect_GET_cases:
  "redirect_GET now c st = (r, st') \<Longrightarrow>
     st' = st \<or> (\<exists>l n. update_clicks st now c n now = Inr (l, st') \<and> (\<exists>u. r = RedirectResp 302 u))"
  by (auto simp: redirect_GET_def split: sum.splits option.splits prod.splits)

lemma create_link_cases:
  "create_link now c u sv = (r, sv') \<Longrightarrow>
     sv' = sv \<or> (\<exists>l st'. create (db sv) now c u = Inr (l, st') \<and> sv' = sv\<lparr>db := st'\<rparr> \<and> r = JsonResp 201 (LinkBody l))"
  by (auto simp: create_link_def split: sum.splits)

lemma post_explicit_cases:
  "post_explicit now c u sv = (r, sv') \<Longrightarrow>
     sv' = sv \<or> (\<exists>l st'. create (db sv) now c u = Inr (l, st') \<and> sv' = sv\<lparr>db := st'\<rparr> \<and> r = JsonResp 201 (LinkBody l))"
  by (auto simp: post_explicit_def split: sum.splits option.splits if_splits dest: create_link_cases)

lemma post_generated_cases:
  "post_generated rnd now u sv = Some (r, sv') \<Longrightarrow>
     db sv' = db sv \<or> (\<exists>c l st'. create (db sv) now c u = Inr (l, st') \<and> db sv' = st' \<and> r = JsonResp 201 (LinkBody l))"
  by (auto simp: post_generated_def split: option.splits sum.splits prod.splits dest!: create_link_cases)

lemma links_POST_cases:
  "links_POST rnd now b sv = Some (r, sv') \<Longrightarrow>
     db sv' = db sv \<or> (\<exists>c u l st'. create (db sv) now c u = Inr (l, st') \<and> db sv' = st' \<and> r = JsonResp 201 (LinkBody l))"
  by (auto simp: links_POST_def split: option.splits post_body.splits if_splits
      dest!: post_explicit_cases post_generated_cases)

lemma link_DELETE_cases:
  "link_DELETE c st = (r, st') \<Longrightarrow> st' = st \<or> (\<exists>l. delete st c = Inr (l, st') \<and> r = JsonResp 200 SuccessBody)"
  by (auto simp: link_DELETE_def split: sum.splits option.splits)

text \<open>
  Claim C19: every request the server answers keeps the table invariant: codes
  and ids unique, ids below the id counter, and a row with clicks has a
  \<open>lastClicked\<close> time.
\<close>

theorem serve_store_inv:
  assumes "store_inv (db sv)" and "serve rnd now rq sv = Some (r, sv')"
  shows "store_inv (db sv')"
proof (cases rq)
  case (GetRedirect c)
  with assms(2) have "redirect_GET now c (db sv) = (r, db sv')"
    by (auto simp: serve_def split: prod.splits)
  then show ?thesis using assms(1) by (auto dest!: redirect_GET_cases intro: store_inv_update_clicks)
next
  case (PostLinks b)
  with assms(2) have "links_POST rnd now b sv = Some (r, sv')" by (simp add: serve_def)
  then show ?thesis using assms(1) by (auto dest!: links_POST_cases intro: store_inv_create)
next
  case (DeleteLink c)
  with assms(2) have "link_DELETE c (db sv) = (r, db sv')"
    by (auto simp: serve_def split: prod.splits)
  then show ?thesis using assms(1) by (auto dest!: link_DELETE_cases intro: store_inv_delete)
qed (use assms in \<open>auto simp: serve_def\<close>)

text \<open>
  Claim C21: after a successful delete the table no longer maps the code, every
  other code is unchanged, and reading the code answers 404.
\<close>

theorem link_DELETE_then_GET:
  assumes "link_DELETE c st = (JsonResp 200 SuccessBody, st')"
  shows "store_map st' = (store_map st)(c := None) \<and> link_GET c st' = JsonResp 404 (ErrorMsg ''Link not found'')"
proof -
  from assms obtain l where d: "delete st c = Inr (l, st')"
    by (auto dest!: link_DELETE_cases simp: link_DELETE_def split: sum.splits option.splits)
  from d have "connected st'" by (auto simp: delete_Inr)
  moreover from store_map_delete [OF d] have "store_map st' = (store_map st)(c := None)" by simp
  ultimately show ?thesis by (simp add: link_GET_def)
qed

text \<open>
  Claim C23: listing answers the rows of the table, each exactly once, newest
  first by \<open>createdAt\<close>.
\<close>

theorem links_GET_order:
  "links_GET st = JsonResp 200 (LinksBody ls) \<Longrightarrow>
     sorted_wrt (\<lambda>a b. createdAt b \<le> createdAt a) ls \<and> mset ls = mset (rows st)"
  by (auto simp: links_GET_def dest: findMany_sorted split: sum.splits)

text \<open>
  Claim C18: a redirect that does not redirect leaves the table unchanged; it
  answers 500 exactly when the database is unreachable and 404 exactly when
  the code is not in the table.
\<close>

theorem redirect_GET_errors:
  assumes "redirect_GET now c st = (JsonResp s b, st')"
  shows "st' = st \<and> (s = 500 \<longleftrightarrow> \<not> connected st) \<and> (s = 404 \<longleftrightarrow> connected st \<and> c \<notin> codes st)"
  using assms
  by (auto simp: redirect_GET_def codes_dom update_clicks_def find_code_map_of findUnique_map store_map_def
      split: if_splits option.splits sum.splits)

text \<open>
  Claim C24: a create request answered with anything but 201 leaves the table
  unchanged.
\<close>

theorem links_POST_error_no_write:
  "links_POST rnd now b sv = Some (JsonResp s bd, sv') \<Longrightarrow> s \<noteq> 201 \<Longrightarrow> db sv' = db sv"
  by (auto dest!: links_POST_cases)

text \<open>
  Claim C6: when some iteration of the collision loop draws a free code,
  the loop stops at the first such iteration, no later than that one, and
  returns its code.
\<close>

theorem find_free_code_first_free:
  assumes con: "connected st" and free: "nth_attempt rnd pos c k \<notin> codes st"
  shows "\<exists>j\<le>k. find_free_code rnd st pos c = Some (Inr (nth_attempt rnd pos c j), pos + 6 * j) \<and>
           nth_attempt rnd pos c j \<notin> codes st \<and> (\<forall>i<j. nth_attempt rnd pos c i \<in> codes st)"
proof -
  define j where "j = (LEAST k. nth_attempt rnd pos c k \<notin> codes st)"
  have fj: "nth_attempt rnd pos c j \<notin> codes st" unfolding j_def by (rule LeastI [of _ k]) (rule free)
  have bj: "\<forall>i<j. nth_attempt rnd pos c i \<in> codes st" unfolding j_def using not_less_Least by blast
  have "j \<le> k" unfolding j_def by (rule Least_le) (rule free)
  with find_free_code_Some_intro [OF con bj fj] fj bj show ?thesis by blast
qed

lemma link_GET_found:
  "connected st \<Longrightarrow> store_map st c = Some l \<Longrightarrow> link_GET c st = JsonResp 200 (LinkBody l)"
  by (simp add: link_GET_def findUnique_map)

lemma links_POST_201_row:
  assumes draws: "\<forall>k. valid_draw (rnd k)"
    and post: "links_POST rnd now b sv = Some (JsonResp 201 (LinkBody l), sv')"
  shows "row_wf l"
proof (cases b)
  case MalformedJson
  with post show ?thesis by (simp add: links_POST_def)
next
  case (PostBody tu cd)
  then obtain u where b: "b = PostBody (Some u) cd"
    using post by (cases tu) (auto simp: links_POST_def)
  from links_POST_201_url [OF post [unfolded b]] have u: "u \<noteq> [] \<and> isValidUrl u" .
  show ?thesis
  proof (cases "js_truthy cd")
    case True
    with post b u have pe: "post_explicit now (the cd) u sv = (JsonResp 201 (LinkBody l), sv')"
      by (simp add: links_POST_valid_url)
    then have "isValidCode (the cd)" by (auto simp: post_explicit_def split: if_splits)
    moreover from pe have "create_link now (the cd) u sv = (JsonResp 201 (LinkBody l), sv')"
      by (auto simp: post_explicit_def split: if_splits sum.splits option.splits)
    from create_link_201 [OF this] have "l = new_link (db sv) now (the cd) u" by blast
    ultimately show ?thesis using u by (simp add: row_wf_def new_link_def)
  next
    case False
    with post b u have "post_generated rnd now u sv = Some (JsonResp 201 (LinkBody l), sv')"
      by (simp add: links_POST_valid_url)
    with u have "links_POST rnd now (PostBody (Some u) None) sv = Some (JsonResp 201 (LinkBody l), sv')"
      by (simp add: links_POST_valid_url)
    from links_POST_generated_row [OF draws this] u show ?thesis
      by (simp add: row_wf_def isValidCode_chars)
  qed
qed

lemma links_POST_201_create:
  "links_POST rnd now b sv = Some (JsonResp 201 (LinkBody l), sv') \<Longrightarrow>
     \<exists>c u. create (db sv) now c u = Inr (l, db sv')"
  by (auto simp: links_POST_def post_explicit_def post_generated_def create_link_def
      split: option.splits post_body.splits if_splits sum.splits prod.splits) blast+

text \<open>
  Claim C20: every row the server stores is well formed: its code passes
  \<open>isValidCode\<close> and its target URL is a non-empty string \<open>isValidUrl\<close> accepts.
  Every answered request keeps this, when \<open>Math.random()\<close> returns values in [0, 1).
\<close>

theorem serve_rows_wf:
  assumes draws: "\<forall>k. valid_draw (rnd k)" and wf: "rows_wf (db sv)"
    and sv': "serve rnd now rq sv = Some (r, sv')"
  shows "rows_wf (db sv')"
proof (cases rq)
  case (GetRedirect c)
  with sv' have "redirect_GET now c (db sv) = (r, db sv')"
    by (auto simp: serve_def split: prod.splits)
  then show ?thesis using wf
    by (auto simp: rows_wf_def row_wf_def update_clicks_Inr dest!: redirect_GET_cases)
next
  case (PostLinks b)
  with sv' have post: "links_POST rnd now b sv = Some (r, sv')" by (simp add: serve_def)
  from links_POST_cases [OF post] show ?thesis
  proof
    assume "db sv' = db sv" with wf show ?thesis by simp
  next
    assume "\<exists>c u l st'. create (db sv) now c u = Inr (l, st') \<and> db sv' = st' \<and> r = JsonResp 201 (LinkBody l)"
    then obtain c u l where cr: "create (db sv) now c u = Inr (l, db sv')" and r: "r = JsonResp 201 (LinkBody l)"
      by blast
    have "row_wf l" using links_POST_201_row [OF draws post [unfolded r]] .
    with cr wf show ?thesis by (auto simp: rows_wf_def create_Inr)
  qed
next
  case (DeleteLink c)
  with sv' have "link_DELETE c (db sv) = (r, db sv')"
    by (auto simp: serve_def split: prod.splits)
  then show ?thesis using wf by (auto simp: rows_wf_def delete_Inr dest!: link_DELETE_cases)
qed (use sv' wf in \<open>auto simp: serve_def\<close>)

text \<open>
  Claim C22: a link the create request answers with 201 is what reading its code
  answers afterwards, and the table gains exactly that row under that code.
\<close>

theorem create_get_roundtrip:
  assumes post: "serve rnd now (PostLinks b) sv = Some (JsonResp 201 (LinkBody l), sv')"
  shows "serve rnd now' (GetLink (code l)) sv' = Some (JsonResp 200 (LinkBody l), sv') \<and>
         store_map (db sv') = (store_map (db sv))(code l \<mapsto> l)"
proof -
  from post have p: "links_POST rnd now b sv = Some (JsonResp 201 (LinkBody l), sv')" by (simp add: serve_def)
  from links_POST_201_create [OF p] obtain c u where cr: "create (db sv) now c u = Inr (l, db sv')"
    by blast
  have c: "code l = c" and con: "connected (db sv')" using cr by (auto simp: create_Inr new_link_def)
  from store_map_create [OF cr] c have m: "store_map (db sv') = (store_map (db sv))(code l \<mapsto> l)" by simp
  then have "store_map (db sv') (code l) = Some l" by simp
  from link_GET_found [OF con this] m show ?thesis by (simp add: serve_def)
qed

subsection \<open>Witnesses\<close>

theorem redirect_GET_found_witness:
  "\<exists>st'. redirect_GET 5 ''abc123'' example_store = (RedirectResp 302 ''https://example.com/a'', st') \<and>
     store_map st' ''abc123'' = Some (example_link\<lparr>clicks := 1, lastClicked := Some 5, updatedAt := 5\<rparr>)"
  using redirect_GET_found [of example_store "''abc123''" example_link 5]
  by (auto simp: example_store_simps) (auto simp: example_link_def)

theorem redirect_GET_errors_witness:
  "redirect_GET 5 ''abc123'' (example_store\<lparr>connected := False\<rparr>) =
     (JsonResp 500 (ErrorMsg ''Internal server error''), example_store\<lparr>connected := False\<rparr>) \<and>
   \<not> connected (example_store\<lparr>connected := False\<rparr>)"
proof -
  have r: "redirect_GET 5 ''abc123'' (example_store\<lparr>connected := False\<rparr>) =
     (JsonResp 500 (ErrorMsg ''Internal server error''), example_store\<lparr>connected := False\<rparr>)"
    by (simp add: redirect_GET_def findUnique_def)
  from redirect_GET_errors [OF r] r show ?thesis by simp
qed

lemma isValidUrl_example: "isValidUrl ''https://example.com/a''"
  by code_simp

lemma links_POST_example:
  "links_POST (\<lambda>_. 0) 0 (PostBody (Some ''https://example.com/a'') None) example_server =
     Some (JsonResp 201 (LinkBody (new_link empty_store 0 ''AAAAAA'' ''https://example.com/a'')),
           \<lparr>db = empty_store\<lparr>rows := [new_link empty_store 0 ''AAAAAA'' ''https://example.com/a''], next_id := 1\<rparr>,
            rng_pos = 6\<rparr>)"
proof -
  have g: "generateRandomCode (\<lambda>_. 0) 0 6 = (''AAAAAA'', 6)" by code_simp
  have f: "find_free_code (\<lambda>_. 0) empty_store 6 ''AAAAAA'' = Some (Inr ''AAAAAA'', 6)"
    by (simp add: find_free_code_unfold empty_store_def codes_def)
  show ?thesis using g f isValidUrl_example
    by (simp add: links_POST_def post_generated_def example_server_def create_link_def create_def
        empty_store_def codes_def)
qed

theorem links_POST_generated_witness:
  "length ''AAAAAA'' = 6 \<and> isValidCode ''AAAAAA'' \<and> ''AAAAAA'' \<notin> codes empty_store"
proof -
  have "\<forall>k. valid_draw ((\<lambda>_. 0) k)" by (simp add: valid_draw_def)
  from links_POST_generated [OF this links_POST_example] show ?thesis
    by (simp add: new_link_def example_server_def)
qed

theorem links_POST_duplicate_code_witness:
  "\<exists>r1 sv1 r2 sv2.
     links_POST (\<lambda>_. 0) 0 (PostBody (Some ''https://example.com/a'') (Some ''abc123'')) example_server = Some (r1, sv1) \<and>
     links_POST (\<lambda>_. 0) 1 (PostBody (Some ''https://example.com/a'') (Some ''abc123'')) sv1 = Some (r2, sv2) \<and>
     r2 = JsonResp 409 (ErrorMsg ''Code already exists'') \<and>
     length (filter (\<lambda>l. code l = ''abc123'') (rows (db sv2))) = 1"
proof -
  have u: "''https://example.com/a'' \<noteq> []" "isValidUrl ''https://example.com/a''"
    using isValidUrl_example by simp_all
  have c: "isValidCode ''abc123''" "''abc123'' \<notin> codes (db example_server)"
    by (code_simp, simp add: example_server_def empty_store_def codes_def)
  have inv: "store_inv (db example_server)" "connected (db example_server)"
    by (simp_all add: example_server_def empty_store_def store_inv_def)
  obtain r1 sv1 where p1: "links_POST (\<lambda>_. 0) 0 (PostBody (Some ''https://example.com/a'') (Some ''abc123'')) example_server = Some (r1, sv1)"
    using u by (cases "post_explicit 0 ''abc123'' ''https://example.com/a'' example_server")
      (simp add: links_POST_valid_url)
  obtain r2 sv2 where p2: "links_POST (\<lambda>_. 0) 1 (PostBody (Some ''https://example.com/a'') (Some ''abc123'')) sv1 = Some (r2, sv2)"
    using u by (cases "post_explicit 1 ''abc123'' ''https://example.com/a'' sv1")
      (simp add: links_POST_valid_url)
  from links_POST_duplicate_code [OF inv u u c p1 p2] p1 p2 show ?thesis by blast
qed

theorem find_free_code_first_free_witness:
  "\<exists>j\<le>1. find_free_code (\<lambda>k. if k < 6 then 0 else 1 / 62) taken_store 6 ''AAAAAA'' =
     Some (Inr (nth_attempt (\<lambda>k. if k < 6 then 0 else 1 / 62) 6 ''AAAAAA'' j), 6 + 6 * j)"
proof -
  have con: "connected taken_store" by (simp add: taken_store_def)
  have "code_of_draws (\<lambda>k. if k < 6 then 0 else 1 / 62) 6 6 = ''BBBBBB''" by code_simp
  then have "nth_attempt (\<lambda>k. if k < 6 then 0 else 1 / 62) 6 ''AAAAAA'' 1 \<notin> codes taken_store"
    by (simp add: nth_attempt_def taken_store_def codes_def example_link_def)
  from find_free_code_first_free [OF con this] show ?thesis by auto
qed

theorem find_free_code_None_iff_witness:
  "find_free_code (\<lambda>_. 0) taken_store 6 ''AAAAAA'' = None"
proof -
  have "code_of_draws (\<lambda>_. 0) p 6 = ''AAAAAA''" for p by code_simp
  then have "\<forall>k. nth_attempt (\<lambda>_. 0) 6 ''AAAAAA'' k \<in> codes taken_store"
    by (simp add: nth_attempt_def taken_store_def codes_def)
  then show ?thesis by (simp add: find_free_code_None_iff taken_store_def)
qed

theorem serve_store_inv_witness:
  "store_inv (db (snd (the (serve (\<lambda>_. 0) 0 (GetRedirect ''abc123'') \<lparr>db = example_store, rng_pos = 0\<rparr>))))"
proof -
  obtain r sv' where s: "serve (\<lambda>_. 0) 0 (GetRedirect ''abc123'') \<lparr>db = example_store, rng_pos = 0\<rparr> = Some (r, sv')"
    by (cases "redirect_GET 0 ''abc123'' example_store") (simp add: serve_def)
  have "store_inv (db \<lparr>db = example_store, rng_pos = 0\<rparr>)" by (simp add: example_store_simps)
  from serve_store_inv [OF this s] s show ?thesis by simp
qed

theorem link_DELETE_then_GET_witness:
  "\<exists>st'. link_DELETE ''abc123'' example_store = (JsonResp 200 SuccessBody, st') \<and>
     link_GET ''abc123'' st' = JsonResp 404 (ErrorMsg ''Link not found'')"
proof -
  obtain st' where d: "link_DELETE ''abc123'' example_store = (JsonResp 200 SuccessBody, st')"
    by (simp add: link_DELETE_def example_store_simps delete_def find_code_map_of store_map_def[symmetric])
  from link_DELETE_then_GET [OF d] d show ?thesis by blast
qed

theorem links_GET_order_witness:
  "sorted_wrt (\<lambda>a b. createdAt b \<le> createdAt a) [example_link] \<and> mset [example_link] = mset (rows example_store)"
proof -
  have "links_GET example_store = JsonResp 200 (LinksBody [example_link])"
    by (simp add: links_GET_def findMany_def example_store_def)
  from links_GET_order [OF this] show ?thesis .
qed

theorem links_POST_error_no_write_witness:
  "db (snd (the (links_POST (\<lambda>_. 0) 0 MalformedJson example_server))) = db example_server"
proof -
  have p: "links_POST (\<lambda>_. 0) 0 MalformedJson example_server =
      Some (JsonResp 500 (ErrorMsg ''Failed to create link''), example_server)"
    by (simp add: links_POST_def)
  from links_POST_error_no_write [OF p] p show ?thesis by simp
qed

theorem serve_rows_wf_witness:
  "rows_wf (db \<lparr>db = empty_store\<lparr>rows := [new_link empty_store 0 ''AAAAAA'' ''https://example.com/a''], next_id := 1\<rparr>,
                rng_pos = 6\<rparr>)"
proof -
  have d: "\<forall>k. valid_draw ((\<lambda>_. 0 :: rat) k)" by (simp add: valid_draw_def)
  have w: "rows_wf (db example_server)" by (simp add: rows_wf_def example_server_def empty_store_def)
  have s: "serve (\<lambda>_. 0) 0 (PostLinks (PostBody (Some ''https://example.com/a'') None)) example_server =
      Some (JsonResp 201 (LinkBody (new_link empty_store 0 ''AAAAAA'' ''https://example.com/a'')),
            \<lparr>db = empty_store\<lparr>rows := [new_link empty_store 0 ''AAAAAA'' ''https://example.com/a''], next_id := 1\<rparr>,
             rng_pos = 6\<rparr>)"
    using links_POST_example by (simp add: serve_def)
  from serve_rows_wf [OF d w s] show ?thesis .
qed

theorem create_get_roundtrip_witness:
  "serve (\<lambda>_. 0) 5 (GetLink ''AAAAAA'')
     \<lparr>db = empty_store\<lparr>rows := [new_link empty_store 0 ''AAAAAA'' ''https://example.com/a''], next_id := 1\<rparr>,
      rng_pos = 6\<rparr> =
   Some (JsonResp 200 (LinkBody (new_link empty_store 0 ''AAAAAA'' ''https://example.com/a'')),
     \<lparr>db = empty_store\<lparr>rows := [new_link empty_store 0 ''AAAAAA'' ''https://example.com/a''], next_id := 1\<rparr>,
      rng_pos = 6\<rparr>)"
proof -
  have s: "serve (\<lambda>_. 0) 0 (PostLinks (PostBody (Some ''https://example.com/a'') None)) example_server =
      Some (JsonResp 201 (LinkBody (new_link empty_store 0 ''AAAAAA'' ''https://example.com/a'')),
            \<lparr>db = empty_store\<lparr>rows := [new_link empty_store 0 ''AAAAAA'' ''https://example.com/a''], next_id := 1\<rparr>,
             rng_pos = 6\<rparr>)"
    using links_POST_example by (simp add: serve_def)
  from create_get_roundtrip [OF s, of 5] show ?thesis by (simp add: new_link_def)
qed

end
