(* ===== verification/Interleaving.thy ===== *)
theory Interleaving
  imports Handlers
begin

text \<open>
  Concurrent requests. The runtime handles requests concurrently, and a
  handler suspends at every \<open>await\<close> of a Prisma query (spec section 5), so
  the queries of different requests interleave while each query is atomic.
  A request in progress is a program counter \<open>pc\<close> that records where its
  handler is suspended and what it has read; \<open>step\<close> runs the handler from
  there through its next query, exactly as the handlers of theory
  \<open>Handlers\<close> do. \<open>istep\<close> lets any unfinished request of a list take its
  next step at any time, against the one shared server state. Running one
  request alone gives back \<open>serve\<close>; interleaving two redirects of the same
  code loses a click, because the redirect writes \<open>link.clicks + 1\<close> from
  the row it read before.
\<close>

section \<open>Requests in progress\<close>

datatype pc =
    RdStart code_str             \<comment> \<open>redirect, before \<open>findUnique\<close>\<close>
  | RdFound code_str link        \<comment> \<open>redirect, row read, before \<open>update\<close>\<close>
  | PoStart post_body            \<comment> \<open>create, before validation\<close>
  | PoLoop url code_str          \<comment> \<open>create, collision loop, before \<open>findUnique\<close>\<close>
  | PoCreate code_str url        \<comment> \<open>create, code known free, before \<open>create\<close>\<close>
  | GtStart code_str             \<comment> \<open>read one link\<close>
  | DlStart code_str             \<comment> \<open>delete, before \<open>findUnique\<close>\<close>
  | DlFound code_str             \<comment> \<open>delete, row seen, before \<open>delete\<close>\<close>
  | LsStart                      \<comment> \<open>list\<close>
  | Done response

fun is_done :: "pc \<Rightarrow> bool" where
  "is_done (Done _) = True"
| "is_done _ = False"

fun init_pc :: "request \<Rightarrow> pc" where
  "init_pc (GetRedirect c) = RdStart c"
| "init_pc (PostLinks b) = PoStart b"
| "init_pc GetLinks = LsStart"
| "init_pc (GetLink c) = GtStart c"
| "init_pc (DeleteLink c) = DlStart c"

text \<open>
  Validation of a create request runs without a query; it ends either with
  the answer, with the first query of a caller-supplied code, or with the
  first generated code entering the collision loop.
\<close>

definition post_start :: "rng \<Rightarrow> time \<Rightarrow> post_body \<Rightarrow> server \<Rightarrow> server \<times> pc" where
  "post_start rnd now b sv =
     (case b of
        MalformedJson \<Rightarrow> (sv, Done (JsonResp 500 (ErrorMsg ''Failed to create link'')))
      | PostBody tu cd \<Rightarrow>
          (case tu of
             None \<Rightarrow> (sv, Done (JsonResp 400 (ErrorMsg ''targetUrl is required'')))
           | Some u \<Rightarrow>
               if u = [] then (sv, Done (JsonResp 400 (ErrorMsg ''targetUrl is required'')))
               else if \<not> isValidUrl u then (sv, Done (JsonResp 400 (ErrorMsg ''Invalid URL format'')))
               else if js_truthy cd then
                 (let c = the cd in
                  if \<not> isValidCode c
                  then (sv, Done (JsonResp 400 (ErrorMsg ''Code must be 6-8 alphanumeric characters'')))
                  else (case findUnique (db sv) c of
                          Inl _ \<Rightarrow> (sv, Done (JsonResp 500 (ErrorMsg ''Failed to create link'')))
                        | Inr (Some _) \<Rightarrow> (sv, Done (JsonResp 409 (ErrorMsg ''Code already exists'')))
                        | Inr None \<Rightarrow> (sv, PoCreate c u)))
               else (case generateRandomCode rnd (rng_pos sv) 6 of
                       (c0, p0) \<Rightarrow> (sv\<lparr>rng_pos := p0\<rparr>, PoLoop u c0))))"

fun step :: "rng \<Rightarrow> time \<Rightarrow> server \<Rightarrow> pc \<Rightarrow> server \<times> pc" where
  "step rnd now sv (RdStart c) =
     (case findUnique (db sv) c of
        Inl _ \<Rightarrow> (sv, Done (JsonResp 500 (ErrorMsg ''Internal server error'')))
      | Inr None \<Rightarrow> (sv, Done (JsonResp 404 (ErrorMsg ''Not found'')))
      | Inr (Some l) \<Rightarrow> (sv, RdFound c l))"
| "step rnd now sv (RdFound c l) =
     (case update_clicks (db sv) now c (clicks l + 1) now of
        Inl _ \<Rightarrow> (sv, Done (JsonResp 500 (ErrorMsg ''Internal server error'')))
      | Inr (_, st') \<Rightarrow> (sv\<lparr>db := st'\<rparr>, Done (RedirectResp 302 (targetUrl l))))"
| "step rnd now sv (PoStart b) = post_start rnd now b sv"
| "step rnd now sv (PoLoop u c) =
     (case findUnique (db sv) c of
        Inl _ \<Rightarrow> (sv, Done (JsonResp 500 (ErrorMsg ''Failed to create link'')))
      | Inr None \<Rightarrow> (sv, PoCreate c u)
      | Inr (Some _) \<Rightarrow>
          (case generateRandomCode rnd (rng_pos sv) 6 of (c', p') \<Rightarrow> (sv\<lparr>rng_pos := p'\<rparr>, PoLoop u c')))"
| "step rnd now sv (PoCreate c u) = (case create_link now c u sv of (r, sv') \<Rightarrow> (sv', Done r))"
| "step rnd now sv (GtStart c) = (sv, Done (link_GET c (db sv)))"
| "step rnd now sv (DlStart c) =
     (case findUnique (db sv) c of
        Inl _ \<Rightarrow> (sv, Done (JsonResp 500 (ErrorMsg ''Failed to delete link'')))
      | Inr None \<Rightarrow> (sv, Done (JsonResp 404 (ErrorMsg ''Link not found'')))
      | Inr (Some _) \<Rightarrow> (sv, DlFound c))"
| "step rnd now sv (DlFound c) =
     (case delete (db sv) c of
        Inl _ \<Rightarrow> (sv, Done (JsonResp 500 (ErrorMsg ''Failed to delete link'')))
      | Inr (_, st') \<Rightarrow> (sv\<lparr>db := st'\<rparr>, Done (JsonResp 200 SuccessBody)))"
| "step rnd now sv LsStart = (sv, Done (links_GET (db sv)))"
| "step rnd now sv (Done r) = (sv, Done r)"

section \<open>Interleaved execution\<close>

text \<open>
  One step of the system: some unfinished request \<open>i\<close> runs to its next
  query at some time \<open>now\<close>.
\<close>

inductive istep :: "rng \<Rightarrow> server \<times> pc list \<Rightarrow> server \<times> pc list \<Rightarrow> bool" for rnd where
  run_one: "i < length ps \<Longrightarrow> \<not> is_done (ps ! i) \<Longrightarrow> step rnd now sv (ps ! i) = (sv', p') \<Longrightarrow>
    istep rnd (sv, ps) (sv', ps[i := p'])"

text \<open>A request run alone, with fuel: at most \<open>n\<close> steps, all at time \<open>now\<close>.\<close>

fun run :: "rng \<Rightarrow> time \<Rightarrow> nat \<Rightarrow> server \<Rightarrow> pc \<Rightarrow> server \<times> pc" where
  "run rnd now 0 sv p = (sv, p)"
| "run rnd now (Suc n) sv p = (if is_done p then (sv, p) else (case step rnd now sv p of (sv', p') \<Rightarrow> run rnd now n sv' p'))"

definition example_sv :: server where
  "example_sv = \<lparr>db = example_store, rng_pos = 0\<rparr>"

text \<open>
  The invariant of a run of redirects of one code \<open>c\<close> whose count started at
  \<open>k0\<close>: the row's count lies between \<open>k0\<close> and \<open>k0\<close> plus the number of
  finished redirects (above \<open>k0\<close> once one has finished), and so does every
  count a suspended redirect has read.
\<close>

definition ndone :: "pc list \<Rightarrow> nat" where
  "ndone ps = length (filter is_done ps)"

definition redir_pc :: "code_str \<Rightarrow> nat \<Rightarrow> nat \<Rightarrow> pc \<Rightarrow> bool" where
  "redir_pc c k0 n p \<longleftrightarrow>
     p = RdStart c \<or> (\<exists>l. p = RdFound c l \<and> k0 \<le> clicks l \<and> clicks l \<le> k0 + n) \<or>
     (\<exists>u. p = Done (RedirectResp 302 u))"

definition redir_inv :: "code_str \<Rightarrow> nat \<Rightarrow> server \<times> pc list \<Rightarrow> bool" where
  "redir_inv c k0 s \<longleftrightarrow>
     connected (db (fst s)) \<and>
     (\<exists>l. store_map (db (fst s)) c = Some l \<and> k0 \<le> clicks l \<and> clicks l \<le> k0 + ndone (snd s) \<and>
          (0 < ndone (snd s) \<longrightarrow> k0 < clicks l)) \<and>
     (\<forall>p\<in>set (snd s). redir_pc c k0 (ndone (snd s)) p)"

section \<open>Properties\<close>

lemma istep_at:
  "i < length ps \<Longrightarrow> \<not> is_done (ps ! i) \<Longrightarrow> step rnd now sv (ps ! i) = (sv', p') \<Longrightarrow>
     ps' = ps[i := p'] \<Longrightarrow> istep rnd (sv, ps) (sv', ps')"
  by (auto intro: istep.run_one)

text \<open>
  Claim C2: two redirects of the same code that interleave, both reading the row
  before either writes, both answer 302 but the table records a single
  click: the handler writes \<open>link.clicks + 1\<close> computed from its own read
  (spec sections 4.3 and 8 ask for an increase by exactly the number of
  redirects).
\<close>

theorem redirect_lost_update:
  assumes con: "connected (db sv)" and l: "store_map (db sv) c = Some l"
  shows "\<exists>sv'. (istep rnd)\<^sup>*\<^sup>* (sv, [RdStart c, RdStart c])
                 (sv', [Done (RedirectResp 302 (targetUrl l)), Done (RedirectResp 302 (targetUrl l))]) \<and>
           store_map (db sv') c = Some (set_clicks t (Suc (clicks l)) t l)"
proof -
  obtain l1 st1 where u1: "update_clicks (db sv) t c (Suc (clicks l)) t = Inr (l1, st1)"
    using con l by (auto simp: update_clicks_Inr)
  from store_map_update_clicks [OF u1] l have m1: "store_map st1 = (store_map (db sv))(c \<mapsto> set_clicks t (Suc (clicks l)) t l)"
    by auto
  have con1: "connected st1" using u1 by (auto simp: update_clicks_Inr)
  obtain l2 st2 where u2: "update_clicks st1 t c (Suc (clicks l)) t = Inr (l2, st2)"
    using con1 m1 by (auto simp: update_clicks_Inr)
  from store_map_update_clicks [OF u2] m1 have m2: "store_map st2 = (store_map (db sv))(c \<mapsto> set_clicks t (Suc (clicks l)) t l)"
    by (auto simp: set_clicks_def)
  let ?R = "RedirectResp 302 (targetUrl l)"
  have s1: "istep rnd (sv, [RdStart c, RdStart c]) (sv, [RdFound c l, RdStart c])"
    by (rule istep_at [of 0 _ _ t]) (simp_all add: con l)
  have s2: "istep rnd (sv, [RdFound c l, RdStart c]) (sv, [RdFound c l, RdFound c l])"
    by (rule istep_at [of 1 _ _ t]) (simp_all add: con l)
  have s3: "istep rnd (sv, [RdFound c l, RdFound c l]) (sv\<lparr>db := st1\<rparr>, [Done ?R, RdFound c l])"
    by (rule istep_at [of 0 _ _ t]) (simp_all add: u1)
  have s4: "istep rnd (sv\<lparr>db := st1\<rparr>, [Done ?R, RdFound c l]) (sv\<lparr>db := st2\<rparr>, [Done ?R, Done ?R])"
    by (rule istep_at [of 1 _ _ t]) (simp_all add: u2)
  from s1 s2 s3 s4 have "(istep rnd)\<^sup>*\<^sup>* (sv, [RdStart c, RdStart c]) (sv\<lparr>db := st2\<rparr>, [Done ?R, Done ?R])"
    by (rule rtranclp_four)
  with m2 show ?thesis by auto
qed

lemma update_clicks_ok:
  assumes "connected st" and "store_map st c = Some l0"
  shows "\<exists>st'. update_clicks st t c n t = Inr (set_clicks t n t l0, st') \<and>
           store_map st' = (store_map st)(c \<mapsto> set_clicks t n t l0) \<and> connected st'"
proof -
  obtain l' st' where u: "update_clicks st t c n t = Inr (l', st')"
    using assms by (auto simp: update_clicks_Inr)
  with store_map_update_clicks [OF u] assms(2) show ?thesis by (auto simp: update_clicks_Inr)
qed

text \<open>
  Claim C3: with three interleaved redirects of one code the click count of the
  row decreases in one step, from two more to one more than it was: a
  redirect that read early overwrites a later count (spec section 3 says
  \<open>clicks\<close> never decreases).
\<close>

theorem redirect_clicks_decrease:
  assumes con: "connected (db sv)" and l: "store_map (db sv) c = Some l"
  shows "\<exists>s1 s2 l1 l2. (istep rnd)\<^sup>*\<^sup>* (sv, [RdStart c, RdStart c, RdStart c]) s1 \<and> istep rnd s1 s2 \<and>
           store_map (db (fst s1)) c = Some l1 \<and> store_map (db (fst s2)) c = Some l2 \<and>
           clicks l1 = clicks l + 2 \<and> clicks l2 = clicks l + 1"
proof -
  let ?l1 = "set_clicks t (Suc (clicks l)) t l"
  let ?l2 = "set_clicks t (Suc (Suc (clicks l))) t l"
  let ?R = "RedirectResp 302 (targetUrl l)"
  obtain st1 where u1: "update_clicks (db sv) t c (Suc (clicks l)) t = Inr (?l1, st1)"
    and m1: "store_map st1 = (store_map (db sv))(c \<mapsto> ?l1)" and c1: "connected st1"
    using update_clicks_ok [OF con l] by blast
  obtain st2 where u2: "update_clicks st1 t c (Suc (Suc (clicks l))) t = Inr (?l2, st2)"
    and m2: "store_map st2 = (store_map st1)(c \<mapsto> ?l2)" and c2: "connected st2"
    using update_clicks_ok [OF c1, of c ?l1 t "Suc (Suc (clicks l))"] m1 by auto
  obtain st3 where u3: "update_clicks st2 t c (Suc (clicks l)) t = Inr (?l1, st3)"
    and m3: "store_map st3 = (store_map st2)(c \<mapsto> ?l1)"
    using update_clicks_ok [OF c2, of c ?l2] m2 by auto
  have s1: "istep rnd (sv, [RdStart c, RdStart c, RdStart c]) (sv, [RdFound c l, RdStart c, RdStart c])"
    by (rule istep_at [of 0 _ _ t]) (simp_all add: con l)
  have s2: "istep rnd (sv, [RdFound c l, RdStart c, RdStart c]) (sv, [RdFound c l, RdFound c l, RdStart c])"
    by (rule istep_at [of 1 _ _ t]) (simp_all add: con l)
  have s3: "istep rnd (sv, [RdFound c l, RdFound c l, RdStart c]) (sv\<lparr>db := st1\<rparr>, [RdFound c l, Done ?R, RdStart c])"
    by (rule istep_at [of 1 _ _ t]) (simp_all add: u1)
  have s4: "istep rnd (sv\<lparr>db := st1\<rparr>, [RdFound c l, Done ?R, RdStart c]) (sv\<lparr>db := st1\<rparr>, [RdFound c l, Done ?R, RdFound c ?l1])"
    by (rule istep_at [of 2 _ _ t]) (simp_all add: c1 m1)
  have s5: "istep rnd (sv\<lparr>db := st1\<rparr>, [RdFound c l, Done ?R, RdFound c ?l1])
              (sv\<lparr>db := st2\<rparr>, [RdFound c l, Done ?R, Done (RedirectResp 302 (targetUrl ?l1))])"
    by (rule istep_at [of 2 _ _ t]) (simp_all add: u2)
  have s6: "istep rnd (sv\<lparr>db := st2\<rparr>, [RdFound c l, Done ?R, Done (RedirectResp 302 (targetUrl ?l1))])
              (sv\<lparr>db := st3\<rparr>, [Done ?R, Done ?R, Done (RedirectResp 302 (targetUrl ?l1))])"
    by (rule istep_at [of 0 _ _ t]) (simp_all add: u3)
  from s1 s2 s3 s4 s5 have
    "(istep rnd)\<^sup>*\<^sup>* (sv, [RdStart c, RdStart c, RdStart c])
       (sv\<lparr>db := st2\<rparr>, [RdFound c l, Done ?R, Done (RedirectResp 302 (targetUrl ?l1))])"
    by (rule rtranclp_five)
  with s6 m2 m3 show ?thesis by (intro exI conjI) (auto simp: set_clicks_def)
qed

lemma post_start_db:
  "post_start rnd now b sv = (sv', p') \<Longrightarrow> db sv' = db sv"
  by (auto simp: post_start_def Let_def split: post_body.splits option.splits if_splits sum.splits prod.splits)

lemma step_store_inv:
  assumes inv: "store_inv (db sv)" and st: "step rnd now sv p = (sv', p')"
  shows "store_inv (db sv')"
proof (cases p)
  case (RdFound c l)
  with st inv show ?thesis by (auto split: sum.splits intro: store_inv_update_clicks)
next
  case (PoStart b)
  with st inv post_start_db show ?thesis by (metis step.simps(3))
next
  case (PoCreate c u)
  from PoCreate st obtain r where "create_link now c u sv = (r, sv')" by (auto split: prod.splits)
  then show ?thesis using inv by (auto dest!: create_link_cases intro: store_inv_create)
next
  case (DlFound c)
  with st inv show ?thesis by (auto split: sum.splits intro: store_inv_delete)
qed (use st inv in \<open>auto split: sum.splits option.splits prod.splits\<close>)

text \<open>
  Claim C13: under any interleaving of any requests the table invariant holds in
  every reachable state: unique codes and ids, and a clicked row has a
  \<open>lastClicked\<close> time.
\<close>

theorem interleaved_store_inv:
  assumes "(istep rnd)\<^sup>*\<^sup>* s s'" and "store_inv (db (fst s))"
  shows "store_inv (db (fst s'))"
  using assms
proof (induction rule: rtranclp_induct)
  case base
  then show ?case .
next
  case (step y z)
  from step.hyps(2) step.IH step.prems show ?case
    by (cases rule: istep.cases) (auto intro: step_store_inv)
qed

lemma ex_run_Done:
  "(\<exists>n. run rnd now n sv (Done r0) = (s, Done r)) \<longleftrightarrow> s = sv \<and> r = r0"
proof -
  have "run rnd now n sv (Done r0) = (sv, Done r0)" for n by (cases n) auto
  then show ?thesis by auto
qed

lemma ex_run_step:
  assumes "\<not> is_done p \<and> (\<forall>u c. p \<noteq> PoLoop u c)"
  shows "(\<exists>n. run rnd now n sv p = (s, Done r)) \<longleftrightarrow>
         (\<exists>n. run rnd now n (fst (step rnd now sv p)) (snd (step rnd now sv p)) = (s, Done r))"
proof
  assume "\<exists>n. run rnd now n sv p = (s, Done r)"
  then obtain n where n: "run rnd now n sv p = (s, Done r)" by blast
  from assms n obtain m where "n = Suc m" by (cases n) auto
  with n assms show "\<exists>n. run rnd now n (fst (step rnd now sv p)) (snd (step rnd now sv p)) = (s, Done r)"
    by (auto split: prod.splits)
next
  assume "\<exists>n. run rnd now n (fst (step rnd now sv p)) (snd (step rnd now sv p)) = (s, Done r)"
  then obtain n where "run rnd now n (fst (step rnd now sv p)) (snd (step rnd now sv p)) = (s, Done r)" by blast
  then have "run rnd now (Suc n) sv p = (s, Done r)" using assms by (auto split: prod.splits)
  then show "\<exists>n. run rnd now n sv p = (s, Done r)" ..
qed

lemma ex_run_step_loop:
  "(\<exists>n. run rnd now n sv (PoLoop u c) = (s, Done r)) \<longleftrightarrow>
   (\<exists>n. run rnd now n (fst (step rnd now sv (PoLoop u c))) (snd (step rnd now sv (PoLoop u c))) = (s, Done r))"
proof
  assume "\<exists>n. run rnd now n sv (PoLoop u c) = (s, Done r)"
  then obtain n where n: "run rnd now n sv (PoLoop u c) = (s, Done r)" by blast
  then obtain m where "n = Suc m" by (cases n) auto
  with n show "\<exists>n. run rnd now n (fst (step rnd now sv (PoLoop u c))) (snd (step rnd now sv (PoLoop u c))) = (s, Done r)"
    by (auto split: prod.splits)
next
  assume "\<exists>n. run rnd now n (fst (step rnd now sv (PoLoop u c))) (snd (step rnd now sv (PoLoop u c))) = (s, Done r)"
  then obtain n where "run rnd now n (fst (step rnd now sv (PoLoop u c))) (snd (step rnd now sv (PoLoop u c))) = (s, Done r)"
    by blast
  then have "run rnd now (Suc n) sv (PoLoop u c) = (s, Done r)" by (auto split: prod.splits)
  then show "\<exists>n. run rnd now n sv (PoLoop u c) = (s, Done r)" ..
qed

lemma run_redirect:
  "(\<exists>n. run rnd now n sv (RdStart c) = (s, Done r)) \<longleftrightarrow>
     (case redirect_GET now c (db sv) of (r', st') \<Rightarrow> s = sv\<lparr>db := st'\<rparr> \<and> r = r')"
  by (simp add: ex_run_step ex_run_Done redirect_GET_def split: sum.splits option.splits prod.splits)

lemma run_get:
  "(\<exists>n. run rnd now n sv (GtStart c) = (s, Done r)) \<longleftrightarrow> s = sv \<and> r = link_GET c (db sv)"
  by (simp add: ex_run_step ex_run_Done)

lemma run_list:
  "(\<exists>n. run rnd now n sv LsStart = (s, Done r)) \<longleftrightarrow> s = sv \<and> r = links_GET (db sv)"
  by (simp add: ex_run_step ex_run_Done)

lemma run_delete:
  "(\<exists>n. run rnd now n sv (DlStart c) = (s, Done r)) \<longleftrightarrow>
     (case link_DELETE c (db sv) of (r', st') \<Rightarrow> s = sv\<lparr>db := st'\<rparr> \<and> r = r')"
  by (simp add: ex_run_step ex_run_Done link_DELETE_def split: sum.splits option.splits prod.splits)

lemma run_create:
  "(\<exists>n. run rnd now n sv (PoCreate c u) = (s, Done r)) \<longleftrightarrow> create_link now c u sv = (r, s)"
  by (auto simp: ex_run_step ex_run_Done split: prod.splits)

lemma run_Done [simp]: "run rnd now n sv (Done r) = (sv, Done r)"
  by (cases n) auto

lemma run_is_done: "is_done p \<Longrightarrow> run rnd now n sv p = (sv, p)"
  by (cases p) auto

lemma run_add:
  "run rnd now (m + n) sv p = (case run rnd now m sv p of (sv', p') \<Rightarrow> run rnd now n sv' p')"
  by (induction m arbitrary: sv p) (auto simp: run_is_done split: prod.splits)

lemma ex_run_prefix:
  assumes m: "run rnd now m sv p = (sv1, p1)" and nd: "\<not> is_done p1"
  shows "(\<exists>n. run rnd now n sv p = (s, Done r)) \<longleftrightarrow> (\<exists>n. run rnd now n sv1 p1 = (s, Done r))"
proof
  assume "\<exists>n. run rnd now n sv p = (s, Done r)"
  then obtain n where n: "run rnd now n sv p = (s, Done r)" by blast
  show "\<exists>n. run rnd now n sv1 p1 = (s, Done r)"
  proof (cases "m \<le> n")
    case True
    with run_add [of rnd now m "n - m" sv p] m n show ?thesis by auto
  next
    case False
    with run_add [of rnd now n "m - n" sv p] m n nd show ?thesis by auto
  qed
next
  assume "\<exists>n. run rnd now n sv1 p1 = (s, Done r)"
  then obtain n where "run rnd now n sv1 p1 = (s, Done r)" by blast
  with run_add [of rnd now m n sv p] m have "run rnd now (m + n) sv p = (s, Done r)" by simp
  then show "\<exists>n. run rnd now n sv p = (s, Done r)" ..
qed

lemma run_loop_attempts:
  assumes "connected (db sv)" and "\<forall>j<k. nth_attempt rnd (rng_pos sv) c j \<in> codes (db sv)"
  shows "run rnd now k sv (PoLoop u c) =
           (sv\<lparr>rng_pos := rng_pos sv + 6 * k\<rparr>, PoLoop u (nth_attempt rnd (rng_pos sv) c k))"
  using assms
proof (induction k arbitrary: sv c)
  case 0
  then show ?case by (simp add: nth_attempt_def)
next
  case (Suc k)
  let ?sv1 = "sv\<lparr>rng_pos := rng_pos sv + 6\<rparr>"
  let ?c1 = "code_of_draws rnd (rng_pos sv) 6"
  from Suc.prems(2) have c: "c \<in> codes (db sv)" by (auto simp: nth_attempt_def)
  have st: "step rnd now sv (PoLoop u c) = (?sv1, PoLoop u ?c1)"
    using Suc.prems(1) c by (simp add: codes_dom domIff generateRandomCode_eq split: option.splits)
  have "\<forall>j<k. nth_attempt rnd (rng_pos ?sv1) ?c1 j \<in> codes (db ?sv1)"
    using Suc.prems(2) by (simp add: nth_attempt_shift [of rnd "rng_pos sv" _ c])
  from Suc.IH [of ?sv1 ?c1] Suc.prems(1) this
  have "run rnd now k ?sv1 (PoLoop u ?c1) =
          (?sv1\<lparr>rng_pos := rng_pos ?sv1 + 6 * k\<rparr>, PoLoop u (nth_attempt rnd (rng_pos ?sv1) ?c1 k))"
    by simp
  with st show ?case by (simp add: nth_attempt_shift [of rnd "rng_pos sv" _ c] algebra_simps)
qed

lemma run_loop:
  "(\<exists>n. run rnd now n sv (PoLoop u c) = (s, Done r)) \<longleftrightarrow>
     (case find_free_code rnd (db sv) (rng_pos sv) c of
        None \<Rightarrow> False
      | Some (Inl _, p) \<Rightarrow> s = sv\<lparr>rng_pos := p\<rparr> \<and> r = JsonResp 500 (ErrorMsg ''Failed to create link'')
      | Some (Inr c', p) \<Rightarrow> create_link now c' u (sv\<lparr>rng_pos := p\<rparr>) = (r, s))"
proof (cases "find_free_code rnd (db sv) (rng_pos sv) c")
  case None
  from find_free_code_None_D [OF None] have con: "connected (db sv)"
    and all: "\<forall>k. nth_attempt rnd (rng_pos sv) c k \<in> codes (db sv)" by auto
  have "run rnd now n sv (PoLoop u c) \<noteq> (s, Done r)" for n
    using run_loop_attempts [OF con, of n] all by auto
  with None show ?thesis by auto
next
  case (Some res)
  show ?thesis
  proof (cases "connected (db sv)")
    case False
    then have "find_free_code rnd (db sv) (rng_pos sv) c = Some (Inl Unavailable, rng_pos sv)"
      by (simp add: find_free_code_unfold)
    with False show ?thesis
      by (auto simp: ex_run_step_loop ex_run_Done findUnique_def)
  next
    case con: True
    from find_free_code_partial [OF Some] con obtain k where
      taken: "\<forall>j<k. nth_attempt rnd (rng_pos sv) c j \<in> codes (db sv)" and
      free: "nth_attempt rnd (rng_pos sv) c k \<notin> codes (db sv)" and
      res: "res = (Inr (nth_attempt rnd (rng_pos sv) c k), rng_pos sv + 6 * k)"
      by auto
    let ?svk = "sv\<lparr>rng_pos := rng_pos sv + 6 * k\<rparr>"
    let ?ck = "nth_attempt rnd (rng_pos sv) c k"
    have "(\<exists>n. run rnd now n sv (PoLoop u c) = (s, Done r)) \<longleftrightarrow>
          (\<exists>n. run rnd now n ?svk (PoLoop u ?ck) = (s, Done r))"
      using run_loop_attempts [OF con taken] by (rule ex_run_prefix) simp
    also have "\<dots> \<longleftrightarrow> (\<exists>n. run rnd now n ?svk (PoCreate ?ck u) = (s, Done r))"
      using con free by (simp add: ex_run_step_loop codes_dom domIff)
    also have "\<dots> \<longleftrightarrow> create_link now ?ck u ?svk = (r, s)"
      by (rule run_create)
    finally show ?thesis using Some res by simp
  qed
qed

lemma run_post:
  "(\<exists>n. run rnd now n sv (PoStart b) = (s, Done r)) \<longleftrightarrow> links_POST rnd now b sv = Some (r, s)"
proof -
  have "(\<exists>n. run rnd now n sv (PoStart b) = (s, Done r)) \<longleftrightarrow>
        (\<exists>n. run rnd now n (fst (post_start rnd now b sv)) (snd (post_start rnd now b sv)) = (s, Done r))"
    by (simp add: ex_run_step)
  also have "\<dots> \<longleftrightarrow> links_POST rnd now b sv = Some (r, s)"
  proof (cases b)
    case MalformedJson
    then show ?thesis by (auto simp: post_start_def links_POST_def ex_run_Done)
  next
    case (PostBody tu cd)
    show ?thesis
    proof (cases "\<exists>u. tu = Some u \<and> u \<noteq> [] \<and> isValidUrl u")
      case False
      with PostBody show ?thesis
        by (cases tu) (auto simp: post_start_def links_POST_def ex_run_Done)
    next
      case True
      then obtain u where u: "tu = Some u" "u \<noteq> []" "isValidUrl u" by blast
      show ?thesis
      proof (cases "js_truthy cd")
        case True
        then obtain c where c: "cd = Some c" "c \<noteq> []" by (cases cd) auto
        show ?thesis using PostBody u c
          by (auto simp: post_start_def links_POST_def post_explicit_def ex_run_Done run_create
              split: sum.splits option.splits prod.splits)
      next
        case False
        then have cd: "cd = None \<or> cd = Some []" by (cases cd) auto
        obtain c0 p0 where g: "generateRandomCode rnd (rng_pos sv) 6 = (c0, p0)" by (cases "generateRandomCode rnd (rng_pos sv) 6")
        have "post_start rnd now b sv = (sv\<lparr>rng_pos := p0\<rparr>, PoLoop u c0)"
          using PostBody u cd g by (auto simp: post_start_def)
        moreover have "links_POST rnd now b sv = post_generated rnd now u sv"
          using PostBody u cd by (auto simp: links_POST_def)
        ultimately show ?thesis using g
          by (auto simp: run_loop post_generated_def split: option.splits sum.splits prod.splits)
      qed
    qed
  qed
  finally show ?thesis .
qed

text \<open>
  Run alone, a request of the step machine reaches an answer exactly
  when \<open>serve\<close> answers, with the same response and server state: the
  interleaving model refines the sequential handlers.
\<close>

theorem run_serve:
  "(\<exists>n. run rnd now n sv (init_pc rq) = (sv', Done r)) \<longleftrightarrow> serve rnd now rq sv = Some (r, sv')"
  by (cases rq) (auto simp: serve_def run_redirect run_get run_list run_delete run_post split: prod.splits)

text \<open>
  Claim C25: two concurrent creates with the same valid free code can both pass
  the existence check; the first then answers 201 and the second 500, not
  409, and the table holds one row with the code.
\<close>

theorem create_race_500:
  assumes con: "connected (db sv)" and inv: "store_inv (db sv)"
    and u: "u \<noteq> []" "isValidUrl u" "u' \<noteq> []" "isValidUrl u'"
    and c: "isValidCode c" "c \<notin> codes (db sv)"
  shows "\<exists>sv'. (istep rnd)\<^sup>*\<^sup>* (sv, [PoStart (PostBody (Some u) (Some c)), PoStart (PostBody (Some u') (Some c))])
            (sv', [Done (JsonResp 201 (LinkBody (new_link (db sv) t c u))),
                   Done (JsonResp 500 (ErrorMsg ''Failed to create link''))]) \<and>
          length (filter (\<lambda>l. code l = c) (rows (db sv'))) = 1"
proof -
  let ?l = "new_link (db sv) t c u"
  let ?sv1 = "sv\<lparr>db := db sv\<lparr>rows := rows (db sv) @ [?l], next_id := Suc (next_id (db sv))\<rparr>\<rparr>"
  have ne: "c \<noteq> []" using c(1) by (rule isValidCode_nonempty)
  have free: "store_map (db sv) c = None" using c(2) by (simp add: codes_dom domIff)
  have s1: "istep rnd (sv, [PoStart (PostBody (Some u) (Some c)), PoStart (PostBody (Some u') (Some c))])
                      (sv, [PoCreate c u, PoStart (PostBody (Some u') (Some c))])"
    by (rule istep_at [of 0 _ _ t]) (simp_all add: post_start_def u ne c(1) con free)
  have s2: "istep rnd (sv, [PoCreate c u, PoStart (PostBody (Some u') (Some c))]) (sv, [PoCreate c u, PoCreate c u'])"
    by (rule istep_at [of 1 _ _ t]) (simp_all add: post_start_def u ne c(1) con free)
  have cr: "create (db sv) t c u = Inr (?l, db ?sv1)" using con c(2) by (simp add: create_def)
  have s3: "istep rnd (sv, [PoCreate c u, PoCreate c u']) (?sv1, [Done (JsonResp 201 (LinkBody ?l)), PoCreate c u'])"
    by (rule istep_at [of 0 _ _ t]) (simp_all add: create_link_def cr)
  have taken: "c \<in> codes (db ?sv1)" by (simp add: codes_def new_link_def)
  have s4: "istep rnd (?sv1, [Done (JsonResp 201 (LinkBody ?l)), PoCreate c u'])
               (?sv1, [Done (JsonResp 201 (LinkBody ?l)), Done (JsonResp 500 (ErrorMsg ''Failed to create link''))])"
    by (rule istep_at [of 1 _ _ t]) (use taken con in \<open>simp_all add: create_link_def create_def\<close>)
  have inv1: "store_inv (db ?sv1)" using store_inv_create [OF inv cr] by simp
  have "filter (\<lambda>l. code l = c) (rows (db ?sv1)) = [?l]"
    using filter_key_distinct [of code "rows (db ?sv1)" ?l] inv1 by (simp add: store_inv_def new_link_def)
  moreover from s1 s2 s3 s4 have "(istep rnd)\<^sup>*\<^sup>* (sv, [PoStart (PostBody (Some u) (Some c)), PoStart (PostBody (Some u') (Some c))])
      (?sv1, [Done (JsonResp 201 (LinkBody ?l)), Done (JsonResp 500 (ErrorMsg ''Failed to create link''))])"
    by (rule rtranclp_four)
  ultimately show ?thesis by auto
qed

text \<open>
  Claim C26: a redirect that has read a row which a concurrent delete then removes
  answers 500, the delete answers 200, and the row stays deleted.
\<close>

theorem redirect_delete_race:
  assumes con: "connected (db sv)" and l: "store_map (db sv) c = Some l"
  shows "\<exists>sv'. (istep rnd)\<^sup>*\<^sup>* (sv, [RdStart c, DlStart c])
            (sv', [Done (JsonResp 500 (ErrorMsg ''Internal server error'')), Done (JsonResp 200 SuccessBody)]) \<and>
          store_map (db sv') = (store_map (db sv))(c := None)"
proof -
  obtain st' where d: "delete (db sv) c = Inr (l, st')" using con l by (auto simp: delete_Inr)
  from store_map_delete [OF d] have m: "store_map st' = (store_map (db sv))(c := None)" by simp
  have con': "connected st'" using d by (auto simp: delete_Inr)
  have gone: "c \<notin> codes st'" using m by (simp add: codes_dom)
  have s1: "istep rnd (sv, [RdStart c, DlStart c]) (sv, [RdFound c l, DlStart c])"
    by (rule istep_at [of 0 _ _ t]) (simp_all add: con l)
  have s2: "istep rnd (sv, [RdFound c l, DlStart c]) (sv, [RdFound c l, DlFound c])"
    by (rule istep_at [of 1 _ _ t]) (simp_all add: con l)
  have s3: "istep rnd (sv, [RdFound c l, DlFound c]) (sv\<lparr>db := st'\<rparr>, [RdFound c l, Done (JsonResp 200 SuccessBody)])"
    by (rule istep_at [of 1 _ _ t]) (simp_all add: d)
  have "update_clicks st' t c (Suc (clicks l)) t = Inl RecordNotFound"
    using update_clicks_Inl [OF con'] gone by blast
  then have s4: "istep rnd (sv\<lparr>db := st'\<rparr>, [RdFound c l, Done (JsonResp 200 SuccessBody)])
      (sv\<lparr>db := st'\<rparr>, [Done (JsonResp 500 (ErrorMsg ''Internal server error'')), Done (JsonResp 200 SuccessBody)])"
    by (intro istep_at [of 0 _ _ t]) simp_all
  from rtranclp_four [of "istep rnd", OF s1 s2 s3 s4] m show ?thesis by auto
qed

lemma length_filter_update_Suc:
  "i < length xs \<Longrightarrow> \<not> P (xs ! i) \<Longrightarrow> P x \<Longrightarrow> length (filter P (xs[i := x])) = Suc (length (filter P xs))"
  by (induction xs arbitrary: i) (auto split: nat.splits)

lemma length_filter_update_same:
  "i < length xs \<Longrightarrow> \<not> P (xs ! i) \<Longrightarrow> \<not> P x \<Longrightarrow> length (filter P (xs[i := x])) = length (filter P xs)"
  by (induction xs arbitrary: i) (auto split: nat.splits)

lemma all_set_update: "\<forall>p\<in>set xs. P p \<Longrightarrow> P x \<Longrightarrow> \<forall>p\<in>set (xs[i := x]). P p"
  by (induction xs arbitrary: i) (auto split: nat.splits)

lemma redir_pc_mono: "redir_pc c k0 n p \<Longrightarrow> n \<le> m \<Longrightarrow> redir_pc c k0 m p"
  by (auto simp: redir_pc_def)

lemma redir_inv_step:
  assumes inv: "redir_inv c k0 (sv, ps)" and i: "i < length ps" and nd: "\<not> is_done (ps ! i)"
    and st: "step rnd now sv (ps ! i) = (sv', p')"
  shows "redir_inv c k0 (sv', ps[i := p'])"
proof -
  from inv obtain l where con: "connected (db sv)" and m: "store_map (db sv) c = Some l"
    and lo: "k0 \<le> clicks l" and hi: "clicks l \<le> k0 + ndone ps" and pos: "0 < ndone ps \<longrightarrow> k0 < clicks l"
    and ps: "\<forall>p\<in>set ps. redir_pc c k0 (ndone ps) p"
    by (auto simp: redir_inv_def)
  have "redir_pc c k0 (ndone ps) (ps ! i)" using ps i by simp
  with nd consider "ps ! i = RdStart c" | l' where "ps ! i = RdFound c l'" "k0 \<le> clicks l'" "clicks l' \<le> k0 + ndone ps"
    by (auto simp: redir_pc_def)
  then show ?thesis
  proof cases
    case 1
    then have sv': "sv' = sv" and p': "p' = RdFound c l" using st con m by (simp_all add: findUnique_map)
    have nd': "ndone (ps[i := p']) = ndone ps"
      using i nd p' by (simp add: ndone_def length_filter_update_same)
    have "redir_pc c k0 (ndone ps) p'" using p' lo hi by (simp add: redir_pc_def)
    with ps have "\<forall>p\<in>set (ps[i := p']). redir_pc c k0 (ndone ps) p" by (rule all_set_update)
    with con m lo hi pos sv' nd' show ?thesis by (simp add: redir_inv_def)
  next
    case 2
    obtain l2 st2 where u: "update_clicks (db sv) now c (Suc (clicks l')) now = Inr (l2, st2)"
      using con m by (auto simp: update_clicks_Inr)
    from store_map_update_clicks [OF u] m
    have m2: "store_map st2 c = Some (set_clicks now (Suc (clicks l')) now l)" by auto
    have con2: "connected st2" using u by (auto simp: update_clicks_Inr)
    have sv': "sv' = sv\<lparr>db := st2\<rparr>" and p': "p' = Done (RedirectResp 302 (targetUrl l'))"
      using st 2 u by simp_all
    have nd': "ndone (ps[i := p']) = Suc (ndone ps)"
      using i nd p' by (simp add: ndone_def length_filter_update_Suc)
    have ps': "\<forall>p\<in>set ps. redir_pc c k0 (Suc (ndone ps)) p" using ps by (auto intro: redir_pc_mono)
    have "redir_pc c k0 (Suc (ndone ps)) p'" using p' by (simp add: redir_pc_def)
    with ps' have "\<forall>p\<in>set (ps[i := p']). redir_pc c k0 (Suc (ndone ps)) p" by (rule all_set_update)
    with con2 m2 2 sv' nd' show ?thesis by (simp add: redir_inv_def)
  qed
qed

lemma istep_length: "(istep rnd)\<^sup>*\<^sup>* s s' \<Longrightarrow> length (snd s') = length (snd s)"
  by (induction rule: rtranclp_induct) (auto elim: istep.cases)

lemma redir_inv_reach: "(istep rnd)\<^sup>*\<^sup>* s s' \<Longrightarrow> redir_inv c k0 s \<Longrightarrow> redir_inv c k0 s'"
proof (induction rule: rtranclp_induct)
  case base
  then show ?case .
next
  case (step y z)
  from step.hyps(2) step.IH step.prems show ?case
    by (cases rule: istep.cases) (auto intro: redir_inv_step)
qed

text \<open>
  Claim C12: whatever the interleaving, \<open>n > 0\<close> concurrent redirects of a code in the
  table all answer 302 and raise its click count by at least 1 and at most \<open>n\<close>;
  by \<open>redirect_lost_update\<close> the lower bound is reached, so \<open>n\<close> is not guaranteed.
\<close>

theorem concurrent_redirects_bounds:
  assumes con: "connected (db sv)" and m: "store_map (db sv) c = Some l" and n: "0 < n"
    and run: "(istep rnd)\<^sup>*\<^sup>* (sv, replicate n (RdStart c)) (sv', ps')"
    and fin: "\<forall>p\<in>set ps'. is_done p"
  shows "(\<forall>p\<in>set ps'. \<exists>u. p = Done (RedirectResp 302 u)) \<and>
         (\<exists>l'. store_map (db sv') c = Some l' \<and> clicks l + 1 \<le> clicks l' \<and> clicks l' \<le> clicks l + n)"
proof -
  have "redir_inv c (clicks l) (sv, replicate n (RdStart c))"
    using con m by (simp add: redir_inv_def ndone_def redir_pc_def)
  from redir_inv_reach [OF run this]
  have inv: "redir_inv c (clicks l) (sv', ps')" .
  have len: "length ps' = n" using istep_length [OF run] by simp
  have "ndone ps' = n" using fin len by (simp add: ndone_def)
  moreover have "\<forall>p\<in>set ps'. \<exists>u. p = Done (RedirectResp 302 u)"
  proof
    fix p assume p: "p \<in> set ps'"
    with inv have "redir_pc c (clicks l) (ndone ps') p" by (simp add: redir_inv_def)
    with fin p show "\<exists>u. p = Done (RedirectResp 302 u)" by (auto simp: redir_pc_def)
  qed
  ultimately show ?thesis using inv n by (auto simp: redir_inv_def)
qed

subsection \<open>Witnesses\<close>

lemma example_sv_simps:
  "connected (db example_sv)" "store_map (db example_sv) ''abc123'' = Some example_link"
  "store_inv (db example_sv)"
  by (simp_all add: example_sv_def example_store_simps)

theorem redirect_lost_update_witness:
  "\<exists>sv'. (istep (\<lambda>_. 0))\<^sup>*\<^sup>* (example_sv, [RdStart ''abc123'', RdStart ''abc123''])
      (sv', [Done (RedirectResp 302 ''https://example.com/a''), Done (RedirectResp 302 ''https://example.com/a'')]) \<and>
    store_map (db sv') ''abc123'' = Some (set_clicks 7 1 7 example_link)"
  using redirect_lost_update [OF example_sv_simps(1,2), where rnd = "\<lambda>_. 0" and t = 7]
  by (simp add: example_link_def)

theorem redirect_clicks_decrease_witness:
  "\<exists>s1 s2 l1 l2. (istep (\<lambda>_. 0))\<^sup>*\<^sup>* (example_sv, [RdStart ''abc123'', RdStart ''abc123'', RdStart ''abc123'']) s1 \<and>
     istep (\<lambda>_. 0) s1 s2 \<and> store_map (db (fst s1)) ''abc123'' = Some l1 \<and>
     store_map (db (fst s2)) ''abc123'' = Some l2 \<and> clicks l1 = 2 \<and> clicks l2 = 1"
  using redirect_clicks_decrease [OF example_sv_simps(1,2), where rnd = "\<lambda>_. 0"]
  by (simp add: example_link_def numeral_2_eq_2)

theorem interleaved_store_inv_witness:
  "store_inv (db (fst (example_sv, [RdFound ''abc123'' example_link])))"
proof -
  have "istep (\<lambda>_. 0) (example_sv, [RdStart ''abc123'']) (example_sv, [RdFound ''abc123'' example_link])"
    by (rule istep_at [of 0 _ _ 0]) (simp_all add: example_sv_simps)
  then have "(istep (\<lambda>_. 0))\<^sup>*\<^sup>* (example_sv, [RdStart ''abc123'']) (example_sv, [RdFound ''abc123'' example_link])"
    by (rule r_into_rtranclp)
  from interleaved_store_inv [OF this] show ?thesis by (simp add: example_sv_simps)
qed

theorem create_race_500_witness:
  "\<exists>sv'. (istep (\<lambda>_. 0))\<^sup>*\<^sup>* (example_server,
        [PoStart (PostBody (Some ''https://example.com/a'') (Some ''abc123'')),
         PoStart (PostBody (Some ''https://example.com/a'') (Some ''abc123''))])
      (sv', [Done (JsonResp 201 (LinkBody (new_link empty_store 3 ''abc123'' ''https://example.com/a''))),
             Done (JsonResp 500 (ErrorMsg ''Failed to create link''))]) \<and>
    length (filter (\<lambda>l. code l = ''abc123'') (rows (db sv'))) = 1"
proof -
  have con: "connected (db example_server)" "store_inv (db example_server)"
    by (simp_all add: example_server_def empty_store_def store_inv_def)
  have u: "''https://example.com/a'' \<noteq> []" "isValidUrl ''https://example.com/a''" by (simp, code_simp)
  have c: "isValidCode ''abc123''" "''abc123'' \<notin> codes (db example_server)"
    by (code_simp, simp add: example_server_def empty_store_def codes_def)
  from create_race_500 [OF con u u c, where rnd = "\<lambda>_. 0" and t = 3] show ?thesis
    by (simp add: example_server_def)
qed

theorem redirect_delete_race_witness:
  "\<exists>sv'. (istep (\<lambda>_. 0))\<^sup>*\<^sup>* (example_sv, [RdStart ''abc123'', DlStart ''abc123''])
      (sv', [Done (JsonResp 500 (ErrorMsg ''Internal server error'')), Done (JsonResp 200 SuccessBody)]) \<and>
    store_map (db sv') ''abc123'' = None"
  using redirect_delete_race [OF example_sv_simps(1,2), where rnd = "\<lambda>_. 0"] by auto

theorem run_serve_witness:
  "\<exists>n. run (\<lambda>_. 0) 0 n example_sv (GtStart ''abc123'') = (example_sv, Done (JsonResp 200 (LinkBody example_link)))"
proof -
  have "serve (\<lambda>_. 0) 0 (GetLink ''abc123'') example_sv = Some (JsonResp 200 (LinkBody example_link), example_sv)"
    by (simp add: serve_def link_GET_def example_sv_simps)
  with run_serve [of "\<lambda>_. 0" 0 example_sv "GetLink ''abc123''"] show ?thesis by simp
qed

theorem concurrent_redirects_bounds_witness:
  "\<exists>sv'. (istep (\<lambda>_. 0))\<^sup>*\<^sup>* (example_sv, replicate 1 (RdStart ''abc123''))
           (sv', [Done (RedirectResp 302 ''https://example.com/a'')]) \<and>
         (\<exists>l'. store_map (db sv') ''abc123'' = Some l' \<and> clicks l' = 1)"
proof -
  obtain l2 st2 where u: "update_clicks (db example_sv) 0 ''abc123'' (Suc 0) 0 = Inr (l2, st2)"
    using example_sv_simps(1,2) by (auto simp: update_clicks_Inr)
  let ?R = "RedirectResp 302 ''https://example.com/a''"
  have s1: "istep (\<lambda>_. 0) (example_sv, [RdStart ''abc123'']) (example_sv, [RdFound ''abc123'' example_link])"
    by (rule istep_at [of 0 _ _ 0]) (simp_all add: example_sv_simps)
  have s2: "istep (\<lambda>_. 0) (example_sv, [RdFound ''abc123'' example_link]) (example_sv\<lparr>db := st2\<rparr>, [Done ?R])"
    by (rule istep_at [of 0 _ _ 0]) (simp_all add: u example_link_def)
  have run: "(istep (\<lambda>_. 0))\<^sup>*\<^sup>* (example_sv, replicate 1 (RdStart ''abc123'')) (example_sv\<lparr>db := st2\<rparr>, [Done ?R])"
    using s1 s2 by simp
  from concurrent_redirects_bounds [OF example_sv_simps(1,2) _ run] run
  show ?thesis by (auto simp: example_link_def)
qed

end
