(* ===== verification/Dates.thy ===== *)
theory Dates
  imports Prelude
begin

text \<open>
  Dates as the JavaScript runtime handles them. A Prisma \<open>DateTime\<close> reaches
  the browser as the string \<open>Date.prototype.toISOString\<close> writes (it is how
  \<open>JSON.stringify\<close>, and so \<open>NextResponse.json\<close>, encodes a \<open>Date\<close>), and the
  statistics page turns it back into milliseconds with \<open>new Date(s)\<close>, which
  runs \<open>Date.parse\<close>. Both follow the ECMAScript specification: the
  proleptic Gregorian calendar with \<open>DayFromYear\<close> as the specification
  defines it, the format \<open>YYYY-MM-DDTHH:mm:ss.sssZ\<close> with a six-digit signed
  year outside 0000--9999, and time values up to 8.64e15 ms. \<open>Date.parse\<close> is
  modelled on that full UTC form only; the shorter forms and offsets it also
  accepts do not reach the pages and are left out.
\<close>

section \<open>Fixed-width decimal fields\<close>

text \<open>\<open>n\<close> written with exactly \<open>k\<close> decimal digits, zero-padded on the left.\<close>

fun dec :: "nat \<Rightarrow> nat \<Rightarrow> string" where
  "dec 0 n = []"
| "dec (Suc k) n = dec k (n div 10) @ [char_of (48 + n mod 10)]"

section \<open>The calendar\<close>

definition leap_year :: "int \<Rightarrow> bool" where
  "leap_year y \<longleftrightarrow> 4 dvd y \<and> (\<not> 100 dvd y \<or> 400 dvd y)"

definition year_len :: "int \<Rightarrow> nat" where
  "year_len y = (if leap_year y then 366 else 365)"

text \<open>The day number of 1 January of year \<open>y\<close> (ECMAScript \<open>DayFromYear\<close>).\<close>

definition DayFromYear :: "int \<Rightarrow> int" where
  "DayFromYear y = 365 * (y - 1970) + (y - 1969) div 4 - (y - 1901) div 100 + (y - 1601) div 400"

text \<open>A day count from 1 January of year \<open>y\<close>, split into a year and a day of that year.\<close>

function split_year :: "int \<Rightarrow> nat \<Rightarrow> int \<times> nat" where
  "split_year y d = (if d < year_len y then (y, d) else split_year (y + 1) (d - year_len y))"
  by pat_completeness auto
termination by (relation "measure (\<lambda>(y, d). d)") (auto simp: year_len_def)

declare split_year.simps [simp del]

definition month_len :: "int \<Rightarrow> nat \<Rightarrow> nat" where
  "month_len y m =
     (if m = 2 then (if leap_year y then 29 else 28) else if m \<in> {4, 6, 9, 11} then 30 else 31)"

definition days_before_month :: "int \<Rightarrow> nat \<Rightarrow> nat" where
  "days_before_month y m = sum_list (map (month_len y) [1..<m])"

text \<open>A day of the year, split into a month (from \<open>m\<close>) and a day of that month.\<close>

function split_month :: "int \<Rightarrow> nat \<Rightarrow> nat \<Rightarrow> nat \<times> nat" where
  "split_month y m d =
     (if m < 12 \<and> month_len y m \<le> d then split_month y (Suc m) (d - month_len y m) else (m, d))"
  by pat_completeness auto
termination by (relation "measure (\<lambda>(y, m, d). 12 - m)") auto

declare split_month.simps [simp del]

section \<open>\<open>Date.prototype.toISOString\<close>\<close>

definition ms_per_day :: nat where "ms_per_day = 86400000"

definition iso_year :: "int \<Rightarrow> string" where
  "iso_year y = (if 0 \<le> y \<and> y \<le> 9999 then dec 4 (nat y)
                 else (if y < 0 then ''-'' else ''+'') @ dec 6 (nat \<bar>y\<bar>))"

definition iso_string :: "nat \<Rightarrow> string" where
  "iso_string t =
     (let days = t div ms_per_day; ms = t mod ms_per_day;
          (y, dy) = split_year 1970 days; (m, dd) = split_month y 1 dy
      in iso_year y @ ''-'' @ dec 2 m @ ''-'' @ dec 2 (Suc dd) @ ''T'' @
         dec 2 (ms div 3600000) @ '':'' @ dec 2 (ms div 60000 mod 60) @ '':'' @
         dec 2 (ms div 1000 mod 60) @ ''.'' @ dec 3 (ms mod 1000) @ ''Z'')"

section \<open>\<open>Date.parse\<close> on the date-time string format\<close>

text \<open>
  Each field is read at its fixed position; the string is rejected (the
  result \<open>NaN\<close>, here \<open>None\<close>) on a wrong separator, a non-digit, a field out
  of range, or a time value beyond 8.64e15 ms. \<open>24:00:00.000\<close> is the end of
  the day, as the specification allows.
\<close>

definition field :: "nat \<Rightarrow> nat \<Rightarrow> string \<Rightarrow> string" where
  "field i n s = take n (drop i s)"

definition parse_year :: "string \<Rightarrow> (int \<times> string) option" where
  "parse_year s =
     (case s of
        [] \<Rightarrow> None
      | c # r \<Rightarrow>
          if c = CHR ''+'' \<or> c = CHR ''-'' then
            (if 6 \<le> length r \<and> list_all ascii_digit (take 6 r) \<and>
                \<not> (c = CHR ''-'' \<and> digits_value (take 6 r) = 0)
             then Some ((if c = CHR ''-'' then -1 else 1) * int (digits_value (take 6 r)), drop 6 r)
             else None)
          else if 4 \<le> length s \<and> list_all ascii_digit (take 4 s)
          then Some (int (digits_value (take 4 s)), drop 4 s) else None)"

definition iso_parse :: "string \<Rightarrow> int option" where
  "iso_parse s =
     (case parse_year s of
        None \<Rightarrow> None
      | Some (y, r) \<Rightarrow>
          if length r = 20 \<and> r ! 0 = CHR ''-'' \<and> r ! 3 = CHR ''-'' \<and> r ! 6 = CHR ''T'' \<and>
             r ! 9 = CHR '':'' \<and> r ! 12 = CHR '':'' \<and> r ! 15 = CHR ''.'' \<and> r ! 19 = CHR ''Z'' \<and>
             list_all ascii_digit (field 1 2 r @ field 4 2 r @ field 7 2 r @ field 10 2 r @ field 13 2 r @ field 16 3 r)
          then
            (let mo = digits_value (field 1 2 r); dd = digits_value (field 4 2 r);
                 hh = digits_value (field 7 2 r); mi = digits_value (field 10 2 r);
                 se = digits_value (field 13 2 r); ms = digits_value (field 16 3 r)
             in if 1 \<le> mo \<and> mo \<le> 12 \<and> 1 \<le> dd \<and> dd \<le> month_len y mo \<and>
                   (hh < 24 \<or> (hh = 24 \<and> mi = 0 \<and> se = 0 \<and> ms = 0)) \<and> mi \<le> 59 \<and> se \<le> 59
                then (let tv = (DayFromYear y + int (days_before_month y mo) + int dd - 1) * int ms_per_day +
                               int (hh * 3600000 + mi * 60000 + se * 1000 + ms)
                      in if \<bar>tv\<bar> \<le> 8640000000000000 then Some tv else None)
                else None)
          else None)"



section \<open>Properties\<close>

lemma length_dec [simp]: "length (dec k n) = k"
  by (induction k arbitrary: n) auto

lemma of_char_digit: "d < 10 \<Longrightarrow> of_char (char_of (48 + d) :: char) = (48 + d :: nat)"
  by (simp add: of_char_of)

lemma ascii_digit_dec: "list_all ascii_digit (dec k n)"
  by (induction k arbitrary: n) (auto simp: ascii_digit_def of_char_digit)

lemma digits_value_append: "digits_value (xs @ [c]) = 10 * digits_value xs + (of_char c - 48)"
  by (simp add: digits_value_def)

lemma digits_value_dec: "digits_value (dec k n) = n mod 10 ^ k"
proof (induction k arbitrary: n)
  case 0
  then show ?case by (simp add: digits_value_def)
next
  case (Suc k)
  have "10 * (n div 10 mod 10 ^ k) + n mod 10 = n mod (10 * 10 ^ k)"
    by (metis mod_mult2_eq mult.commute)
  then show ?case by (simp add: Suc.IH digits_value_append of_char_digit)
qed

lemma int_div_succ:
  assumes n: "(1::int) < n"
  shows "(a + 1) div n = a div n + (if n dvd (a + 1) then 1 else 0)"
proof -
  have a: "a + 1 = n * (a div n) + (a mod n + 1)" by simp
  have lo: "0 \<le> a mod n" and hi: "a mod n < n" using n by simp_all
  show ?thesis
  proof (cases "a mod n + 1 = n")
    case True
    then have "a + 1 = n * (a div n + 1)" using a by (simp add: algebra_simps)
    then show ?thesis using n by simp
  next
    case False
    then have r: "0 \<le> a mod n + 1" "a mod n + 1 < n" using lo hi by simp_all
    have "(a + 1) div n = a div n" using a r n
      by (metis add.commute div_mult_self2 div_pos_pos_trivial less_le_trans zero_less_one add_cancel_right_left
          nat_less_le not_less_iff_gr_or_eq)
    moreover have "\<not> n dvd (a + 1)"
    proof
      assume "n dvd (a + 1)"
      then have "(a + 1) mod n = 0" by simp
      moreover have "(a + 1) mod n = a mod n + 1" using a r by (metis mod_mult_self2 mod_pos_pos_trivial add.commute)
      ultimately show False using lo by simp
    qed
    ultimately show ?thesis by simp
  qed
qed

lemma leap_count_step:
  fixes A B C A' B' C' y :: int
  assumes "A' = A + (if p then 1 else 0)" "B' = B + (if q then 1 else 0)" "C' = C + (if r then 1 else 0)"
    and "r \<Longrightarrow> q" "q \<Longrightarrow> p"
  shows "365 * (y + 1 - 1970) + A' - B' + C' = 365 * (y - 1970) + A - B + C + int (if p \<and> (\<not> q \<or> r) then 366 else 365)"
  using assms by (cases p; cases q; cases r) simp_all

lemma DayFromYear_Suc: "DayFromYear (y + 1) = DayFromYear y + int (year_len y)"
proof -
  have dv: "k dvd (y - k * m) \<longleftrightarrow> k dvd y" for k m :: int
  proof -
    have "y - k * m = y + (- m) * k" by (simp add: algebra_simps)
    then show ?thesis by (simp only: dvd_add_times_triv_right_iff)
  qed
  have a: "(y + 1 - 1969) div 4 = (y - 1969) div 4 + (if 4 dvd y then 1 else 0)"
    using int_div_succ [of 4 "y - 1969"] dv [of 4 492] by (simp add: add.commute diff_diff_eq2)
  have b: "(y + 1 - 1901) div 100 = (y - 1901) div 100 + (if 100 dvd y then 1 else 0)"
    using int_div_succ [of 100 "y - 1901"] dv [of 100 19] by (simp add: add.commute diff_diff_eq2)
  have c: "(y + 1 - 1601) div 400 = (y - 1601) div 400 + (if 400 dvd y then 1 else 0)"
    using int_div_succ [of 400 "y - 1601"] dv [of 400 4] by (simp add: add.commute diff_diff_eq2)
  have "400 dvd y \<Longrightarrow> 100 dvd y" by (rule dvd_trans [of 100 400 y]) simp_all
  moreover have "100 dvd y \<Longrightarrow> 4 dvd y" by (rule dvd_trans [of 4 100 y]) simp_all
  ultimately show ?thesis
    unfolding DayFromYear_def year_len_def leap_year_def by (rule leap_count_step [OF a b c])
qed

lemma DayFromYear_1970 [simp]: "DayFromYear 1970 = 0"
  by (simp add: DayFromYear_def)


lemma split_year_correct:
  "split_year y d = (y', r) \<Longrightarrow> DayFromYear y' + int r = DayFromYear y + int d \<and> r < year_len y' \<and> y \<le> y'"
proof (induction y d rule: split_year.induct)
  case (1 y d)
  show ?case
  proof (cases "d < year_len y")
    case True
    with "1.prems" show ?thesis by (simp add: split_year.simps [of y d])
  next
    case False
    with "1.prems" have "split_year (y + 1) (d - year_len y) = (y', r)" by (simp add: split_year.simps [of y d])
    from "1.IH" [OF False this] False show ?thesis by (simp add: DayFromYear_Suc)
  qed
qed

lemma split_year_bound: "split_year y d = (y', r) \<Longrightarrow> 365 * (y' - y) \<le> int d"
proof (induction y d rule: split_year.induct)
  case (1 y d)
  show ?case
  proof (cases "d < year_len y")
    case True
    with "1.prems" show ?thesis by (simp add: split_year.simps [of y d])
  next
    case False
    with "1.prems" have "split_year (y + 1) (d - year_len y) = (y', r)" by (simp add: split_year.simps [of y d])
    from "1.IH" [OF False this] False have "365 * (y' - (y + 1)) \<le> int d - int (year_len y)" by simp
    moreover have "365 \<le> year_len y" by (simp add: year_len_def)
    ultimately show ?thesis by (simp add: algebra_simps)
  qed
qed

lemma days_before_month_Suc: "1 \<le> m \<Longrightarrow> days_before_month y (Suc m) = days_before_month y m + month_len y m"
  by (simp add: days_before_month_def)

lemma days_before_12: "days_before_month y 12 + month_len y 12 = year_len y"
  by (simp add: days_before_month_def month_len_def year_len_def upt_rec)

lemma split_month_correct:
  "split_month y m d = (m', r) \<Longrightarrow> 1 \<le> m \<Longrightarrow> m \<le> 12 \<Longrightarrow> days_before_month y m + d < year_len y \<Longrightarrow>
     days_before_month y m' + r = days_before_month y m + d \<and> 1 \<le> m' \<and> m' \<le> 12 \<and> r < month_len y m'"
proof (induction y m d rule: split_month.induct)
  case (1 y m d)
  show ?case
  proof (cases "m < 12 \<and> month_len y m \<le> d")
    case True
    with "1.prems" have "split_month y (Suc m) (d - month_len y m) = (m', r)"
      by (simp add: split_month.simps [of y m d])
    from "1.IH" [OF True this] True "1.prems"(2-4) show ?thesis by (simp add: days_before_month_Suc)
  next
    case False
    with "1.prems" have "m' = m" "r = d" by (simp_all add: split_month.simps [of y m d])
    with False "1.prems"(2-4) days_before_12 [of y] show ?thesis by auto
  qed
qed

lemma dec_Cons: "0 < k \<Longrightarrow> \<exists>c r. dec k n = c # r \<and> ascii_digit c"
proof -
  assume k: "0 < k"
  have "dec k n \<noteq> []" using k length_dec [of k n] by (metis less_numeral_extra(3) list.size(3))
  then obtain c r where e: "dec k n = c # r" by (cases "dec k n") auto
  have "list_all ascii_digit (c # r)" using ascii_digit_dec [of k n] by (simp only: e)
  with e show ?thesis by auto
qed

lemma digits_value_dec_small: "n < 10 ^ k \<Longrightarrow> digits_value (dec k n) = n"
  by (simp add: digits_value_dec)

lemma parse_year_iso:
  assumes "0 \<le> y" and "y < 1000000"
  shows "parse_year (iso_year y @ r) = Some (y, r)"
proof (cases "y \<le> 9999")
  case True
  obtain c w where e: "dec 4 (nat y) = c # w" and d: "ascii_digit c"
    using dec_Cons [of 4 "nat y"] by auto
  have nc: "c \<noteq> CHR ''+''" "c \<noteq> CHR ''-''" using d by (auto simp: ascii_digit_def)
  have v: "digits_value (dec 4 (nat y)) = nat y" using True assms by (simp add: digits_value_dec_small)
  have i: "iso_year y @ r = c # (w @ r)" using True assms e by (simp add: iso_year_def)
  have t: "take 4 (c # (w @ r)) = dec 4 (nat y)" "drop 4 (c # (w @ r)) = r"
    by (metis e append_Cons append_eq_conv_conj length_dec)+
  have l: "4 \<le> length (c # (w @ r))" by (metis e append_Cons length_append le_add1 length_dec)
  show ?thesis unfolding i parse_year_def
    using nc v t l ascii_digit_dec [of 4 "nat y"] assms by (simp del: dec.simps)
next
  case False
  have v: "digits_value (dec 6 (nat y)) = nat y" using assms by (simp add: digits_value_dec_small)
  have i: "iso_year y @ r = CHR ''+'' # (dec 6 (nat y) @ r)" using False assms by (simp add: iso_year_def)
  show ?thesis unfolding i parse_year_def
    using False assms v ascii_digit_dec [of 6 "nat y"] by (simp del: dec.simps)
qed

lemma iso_tail:
  fixes a b c d e f :: nat
  defines "r \<equiv> ''-'' @ dec 2 a @ ''-'' @ dec 2 b @ ''T'' @ dec 2 c @ '':'' @ dec 2 d @ '':'' @
                 dec 2 e @ ''.'' @ dec 3 f @ ''Z''"
  shows "length r = 20 \<and> r ! 0 = CHR ''-'' \<and> r ! 3 = CHR ''-'' \<and> r ! 6 = CHR ''T'' \<and>
         r ! 9 = CHR '':'' \<and> r ! 12 = CHR '':'' \<and> r ! 15 = CHR ''.'' \<and> r ! 19 = CHR ''Z'' \<and>
         field 1 2 r = dec 2 a \<and> field 4 2 r = dec 2 b \<and> field 7 2 r = dec 2 c \<and>
         field 10 2 r = dec 2 d \<and> field 13 2 r = dec 2 e \<and> field 16 3 r = dec 3 f"
  unfolding r_def field_def by (simp del: dec.simps add: nth_append)

lemma div_mod_split: "n div (a * b) * (a * b) + n div a mod b * a + n mod a = (n::nat)"
proof -
  have "n mod (a * b) = a * (n div a mod b) + n mod a" by (rule mod_mult2_eq)
  moreover have "n = n div (a * b) * (a * b) + n mod (a * b)" by (metis div_mult_mod_eq)
  ultimately show ?thesis by (simp add: algebra_simps)
qed

lemma ms_of_day:
  "(ms::nat) div 3600000 * 3600000 + ms div 60000 mod 60 * 60000 + ms div 1000 mod 60 * 1000 + ms mod 1000 = ms"
proof -
  have h: "ms div 3600000 * 3600000 + ms div 60000 mod 60 * 60000 + ms mod 60000 = ms"
    using div_mod_split [of ms 60000 60] by simp
  have m: "ms mod 60000 = ms div 1000 mod 60 * 1000 + ms mod 1000"
    using mod_mult2_eq [of ms 1000 60] by simp
  from h m show ?thesis by simp
qed

lemma iso_parse_iso_string:
  assumes "t \<le> 8640000000000000"
  shows "iso_parse (iso_string t) = Some (int t)"
proof -
  define days where "days = t div ms_per_day"
  define ms where "ms = t mod ms_per_day"
  obtain y dy where sy: "split_year 1970 days = (y, dy)" by (cases "split_year 1970 days")
  obtain m dd where sm: "split_month y 1 dy = (m, dd)" by (cases "split_month y 1 dy")
  from split_year_correct [OF sy] have y1: "DayFromYear y + int dy = int days" and dyl: "dy < year_len y"
    and y0: "1970 \<le> y" by simp_all
  from split_month_correct [OF sm] dyl have m1: "days_before_month y m + dd = dy" and m12: "1 \<le> m" "m \<le> 12"
    and ddl: "dd < month_len y m" by (simp_all add: days_before_month_def)
  have "days \<le> 100000000" using assms by (simp add: days_def ms_per_day_def div_le_mono2)
  with split_year_bound [OF sy] have yb: "y < 1000000" by simp
  have msl: "ms < 86400000" by (simp add: ms_def ms_per_day_def)
  have mlen: "month_len y m \<le> 31" by (simp add: month_len_def)
  let ?r = "''-'' @ dec 2 m @ ''-'' @ dec 2 (Suc dd) @ ''T'' @ dec 2 (ms div 3600000) @ '':'' @
            dec 2 (ms div 60000 mod 60) @ '':'' @ dec 2 (ms div 1000 mod 60) @ ''.'' @ dec 3 (ms mod 1000) @ ''Z''"
  have sm': "split_month y (Suc 0) dy = (m, dd)" using sm by simp
  have s: "iso_string t = iso_year y @ ?r"
    unfolding iso_string_def Let_def days_def [symmetric] ms_def [symmetric]
    by (simp add: sy sm' del: dec.simps)
  define r where "r = ?r"
  have py: "parse_year (iso_string t) = Some (y, r)" unfolding s r_def using y0 yb by (intro parse_year_iso) simp_all
  have tl: "length r = 20 \<and> r ! 0 = CHR ''-'' \<and> r ! 3 = CHR ''-'' \<and> r ! 6 = CHR ''T'' \<and>
         r ! 9 = CHR '':'' \<and> r ! 12 = CHR '':'' \<and> r ! 15 = CHR ''.'' \<and> r ! 19 = CHR ''Z''"
    and fl: "field 1 2 r = dec 2 m" "field 4 2 r = dec 2 (Suc dd)" "field 7 2 r = dec 2 (ms div 3600000)"
      "field 10 2 r = dec 2 (ms div 60000 mod 60)" "field 13 2 r = dec 2 (ms div 1000 mod 60)"
      "field 16 3 r = dec 3 (ms mod 1000)"
    unfolding r_def using iso_tail [of m "Suc dd" "ms div 3600000" "ms div 60000 mod 60" "ms div 1000 mod 60" "ms mod 1000"]
    by simp_all
  have hh: "ms div 3600000 < 24" using msl by simp
  have v: "digits_value (field 1 2 r) = m" "digits_value (field 4 2 r) = Suc dd"
    "digits_value (field 7 2 r) = ms div 3600000"
    "digits_value (field 10 2 r) = ms div 60000 mod 60"
    "digits_value (field 13 2 r) = ms div 1000 mod 60"
    "digits_value (field 16 3 r) = ms mod 1000"
    unfolding fl using m12 ddl mlen hh by (simp_all add: digits_value_dec_small)
  have dg: "list_all ascii_digit (field 1 2 r @ field 4 2 r @ field 7 2 r @ field 10 2 r @ field 13 2 r @ field 16 3 r)"
    unfolding fl by (simp add: ascii_digit_dec del: dec.simps)
  have d: "DayFromYear y + int (days_before_month y m) + int (Suc dd) - 1 = int days" using y1 m1 by simp
  have tday: "int t = int days * int ms_per_day + int ms"
    unfolding days_def ms_def by (metis div_mult_mod_eq of_nat_add of_nat_mult)
  have tv: "(DayFromYear y + int (days_before_month y m) + int (Suc dd) - 1) * int ms_per_day +
            int (ms div 3600000 * 3600000 + ms div 60000 mod 60 * 60000 + ms div 1000 mod 60 * 1000 + ms mod 1000)
            = int t"
    by (simp only: d ms_of_day tday)
  have ab: "\<bar>int t\<bar> \<le> 8640000000000000" using assms by simp
  have ddm: "Suc dd \<le> month_len y m" using ddl by simp
  have mi: "ms div 60000 mod 60 \<le> 59" "ms div 1000 mod 60 \<le> 59" by simp_all
  show ?thesis
    unfolding iso_parse_def py using tl v dg m12 ddm hh mi tv ab
    by (simp only: Let_def option.case prod.case) simp
qed

end
