(* ===== verification/Wire.thy ===== *)
theory Wire
  imports Store Dates
begin

text \<open>
  A link row as it travels from a route to a page: \<open>NextResponse.json\<close>
  writes the Prisma row with \<open>JSON.stringify\<close>, each \<open>DateTime\<close> as the
  string \<open>toISOString\<close> writes, and the pages read the parsed object. The
  record \<open>link_json\<close> is that object, \<open>link_to_json\<close> the encoding; the
  lemmas show that no information of the row is lost on the way.
\<close>

section \<open>The JSON of a link row\<close>

text \<open>
  The statistics page's \<open>interface Link\<close>: what \<open>res.json()\<close> yields for a
  row (the dashboard's interface is the same without \<open>updatedAt\<close>). The
  interface types \<open>id\<close> as a string; the field holds the row's id as the route
  sent it, and neither page computes with it.
\<close>

record link_json =
  j_id :: nat
  j_code :: code_str
  j_targetUrl :: url
  j_clicks :: nat
  j_createdAt :: string
  j_lastClicked :: "string option"
  j_updatedAt :: string

text \<open>\<open>NextResponse.json(link)\<close>: \<open>JSON.stringify\<close> writes each \<open>Date\<close> with \<open>toISOString\<close>.\<close>

definition link_to_json :: "link \<Rightarrow> link_json" where
  "link_to_json l =
     \<lparr>j_id = link_id l, j_code = code l, j_targetUrl = targetUrl l, j_clicks = clicks l,
      j_createdAt = iso_string (createdAt l), j_lastClicked = map_option iso_string (lastClicked l),
      j_updatedAt = iso_string (updatedAt l)\<rparr>"

text \<open>Every time of the row within the range of a JavaScript \<open>Date\<close>.\<close>

definition link_times_ok :: "link \<Rightarrow> bool" where
  "link_times_ok l \<longleftrightarrow>
     createdAt l \<le> 8640000000000000 \<and> updatedAt l \<le> 8640000000000000 \<and>
     (\<forall>t\<in>set_option (lastClicked l). t \<le> 8640000000000000)"

section \<open>Properties of the encoding\<close>

lemma iso_string_not_Nil: "iso_string t \<noteq> []"
  by (simp add: iso_string_def Let_def split: prod.split)

lemma json_lastClicked:
  assumes "\<forall>t\<in>set_option (lastClicked l). t \<le> 8640000000000000"
  shows "(case j_lastClicked (link_to_json l) of None \<Rightarrow> None
          | Some s \<Rightarrow> if s = [] then None else Some (iso_parse s)) =
         map_option (\<lambda>t. Some (int t)) (lastClicked l)"
  using assms
  by (cases "lastClicked l") (simp_all add: link_to_json_def iso_parse_iso_string iso_string_not_Nil)

text \<open>
  The dates of a row survive the trip to the browser: \<open>Date.parse\<close> of
  what \<open>toISOString\<close> wrote for \<open>createdAt\<close>, \<open>updatedAt\<close> and \<open>lastClicked\<close>
  gives back the stored times, for every time a \<open>Date\<close> can hold.
\<close>

theorem link_json_dates_roundtrip:
  assumes "link_times_ok l"
  shows "iso_parse (j_createdAt (link_to_json l)) = Some (int (createdAt l)) \<and>
         iso_parse (j_updatedAt (link_to_json l)) = Some (int (updatedAt l)) \<and>
         map_option iso_parse (j_lastClicked (link_to_json l)) = map_option (\<lambda>t. Some (int t)) (lastClicked l)"
  using assms
  by (cases "lastClicked l") (simp_all add: link_to_json_def link_times_ok_def iso_parse_iso_string)

theorem link_json_dates_roundtrip_witness:
  "iso_parse (j_createdAt (link_to_json (example_link\<lparr>createdAt := 1000, lastClicked := Some 86400000\<rparr>))) = Some 1000 \<and>
   iso_parse (j_updatedAt (link_to_json (example_link\<lparr>createdAt := 1000, lastClicked := Some 86400000\<rparr>))) = Some 0 \<and>
   map_option iso_parse (j_lastClicked (link_to_json (example_link\<lparr>createdAt := 1000, lastClicked := Some 86400000\<rparr>))) =
     Some (Some 86400000)"
  using link_json_dates_roundtrip [of "example_link\<lparr>createdAt := 1000, lastClicked := Some 86400000\<rparr>"]
  by (simp add: example_link_def link_times_ok_def)

end
