(* ===== verification/Dashboard.thy ===== *)
theory Dashboard
  imports Handlers Wire "HOL-Library.Sublist"
begin

text \<open>
  The dashboard client of \<open>src/app/page.tsx\<close>: its React state as a record,
  each event handler as a function from the state (and the server's answer)
  to the next state, and the list filter of the search box. Each handler that
  calls the API is split at its \<open>await fetch\<close>: a request part computes the
  request, a response part applies the answer, and a composed handler runs
  the server model of \<open>Handlers\<close> in between. The response part receives the
  \<open>links\<close> array the handler's closure captured, as React does.
\<close>

section \<open>Client state\<close>

record dash =
  links :: "link list"
  loading :: bool
  error :: "string option"
  success :: "string option"
  dbConnected :: bool
  targetUrl_field :: string
  customCode :: string
  isSubmitting :: bool
  searchTerm :: string

definition dash_init :: dash where
  "dash_init =
     \<lparr>links = [], loading = False, error = None, success = None, dbConnected = True,
      targetUrl_field = [], customCode = [], isSubmitting = False, searchTerm = []\<rparr>"

section \<open>JavaScript built-ins the page uses\<close>

text \<open>
  \<open>String.prototype.trim\<close> on the Latin-1 characters a \<open>char\<close> holds: the
  white space it strips is TAB, LF, VT, FF, CR, SPACE and NO-BREAK SPACE.
\<close>

definition js_ws :: "char \<Rightarrow> bool" where
  "js_ws c \<longleftrightarrow> of_char c \<in> set [9, 10, 11, 12, 13, 32, 160 :: nat]"

definition js_trim :: "string \<Rightarrow> string" where
  "js_trim s = rev (dropWhile js_ws (rev (dropWhile js_ws s)))"

text \<open>
  \<open>String.prototype.toLowerCase\<close> on Latin-1: A--Z and the capitals
  U+00C0--U+00DE other than the multiplication sign move up by 32.
\<close>

definition js_lower_char :: "char \<Rightarrow> char" where
  "js_lower_char c =
     (let n = of_char c :: nat in
      if (65 \<le> n \<and> n \<le> 90) \<or> (192 \<le> n \<and> n \<le> 222 \<and> n \<noteq> 215) then char_of (n + 32) else c)"

definition js_lower :: "string \<Rightarrow> string" where
  "js_lower s = map js_lower_char s"

text \<open>\<open>s.includes(p)\<close>: \<open>p\<close> occurs in \<open>s\<close> at some index \<open>0..s.length\<close>.\<close>

definition js_includes :: "string \<Rightarrow> string \<Rightarrow> bool" where
  "js_includes s p = list_ex (\<lambda>i. take (length p) (drop i s) = p) [0..<Suc (length s)]"

text \<open>\<open>res.ok\<close>: a status in 200--299.\<close>

definition resp_status :: "response \<Rightarrow> nat" where
  "resp_status r = (case r of JsonResp s _ \<Rightarrow> s | RedirectResp s _ \<Rightarrow> s)"

definition resp_ok :: "response \<Rightarrow> bool" where
  "resp_ok r \<longleftrightarrow> 200 \<le> resp_status r \<and> resp_status r \<le> 299"

text \<open>\<open>errData.error || 'Failed to create link'\<close>\<close>

definition error_or_default :: "response \<Rightarrow> string" where
  "error_or_default r =
     (case r of JsonResp _ (ErrorMsg m) \<Rightarrow> if m \<noteq> [] then m else ''Failed to create link''
      | _ \<Rightarrow> ''Failed to create link'')"

section \<open>Loading the list: \<open>fetchLinks\<close>\<close>

text \<open>
  The \<open>catch\<close> branch, reached by the \<open>throw\<close> on a non-500 error and by a
  body that is not an array of links.
\<close>

definition fetch_failed :: "dash \<Rightarrow> dash" where
  "fetch_failed d =
     d\<lparr>dbConnected := False, error := Some ''Database connection failed. Demo mode enabled.'',
       loading := False\<rparr>"

definition fetchLinks :: "response \<Rightarrow> dash \<Rightarrow> dash" where
  "fetchLinks r d =
     (if \<not> resp_ok r then
        (if resp_status r = 500 then
           d\<lparr>dbConnected := False,
             error := Some ''Database not connected. Please configure your Neon database.'',
             links := [], loading := False\<rparr>
         else fetch_failed d)
      else (case r of
              JsonResp _ (LinksBody ls) \<Rightarrow>
                d\<lparr>links := ls, dbConnected := True, error := None, loading := False\<rparr>
            | _ \<Rightarrow> fetch_failed d))"

definition fetchLinks_srv :: "server \<Rightarrow> dash \<Rightarrow> dash" where
  "fetchLinks_srv sv d = fetchLinks (links_GET (db sv)) d"

section \<open>Creating a link: \<open>handleCreateLink\<close>\<close>

text \<open>
  Up to the \<open>fetch\<close>: clear the messages, refuse a blank URL and a
  disconnected database, otherwise post \<open>{targetUrl}\<close>, with \<open>code\<close> the
  untrimmed custom code when its trimmed form is non-empty.
\<close>

definition create_request :: "dash \<Rightarrow> dash \<times> post_body option" where
  "create_request d =
     (let d1 = d\<lparr>error := None, success := None\<rparr> in
      if js_trim (targetUrl_field d) = [] then (d1\<lparr>error := Some ''Please enter a URL''\<rparr>, None)
      else if \<not> dbConnected d then
        (d1\<lparr>error := Some ''Database not connected. Cannot create links.''\<rparr>, None)
      else (d1\<lparr>isSubmitting := True\<rparr>,
            Some (PostBody (Some (targetUrl_field d))
                    (if js_trim (customCode d) \<noteq> [] then Some (customCode d) else None))))"

text \<open>
  After the \<open>fetch\<close>: \<open>cap\<close> is the \<open>links\<close> array of the closure. A 2xx
  body other than a link does not come from \<open>POST /api/links\<close> and is left
  out (only \<open>finally\<close> runs).
\<close>

definition create_response :: "response \<Rightarrow> link list \<Rightarrow> dash \<Rightarrow> dash" where
  "create_response r cap d =
     (if resp_status r = 409 then
        d\<lparr>error := Some ''This code already exists. Please choose another.'', isSubmitting := False\<rparr>
      else if \<not> resp_ok r then d\<lparr>error := Some (error_or_default r), isSubmitting := False\<rparr>
      else (case r of
              JsonResp _ (LinkBody l) \<Rightarrow>
                d\<lparr>links := l # cap, targetUrl_field := [], customCode := [],
                  success := Some (''Link created: '' @ code l), isSubmitting := False\<rparr>
            | _ \<Rightarrow> d\<lparr>isSubmitting := False\<rparr>))"

definition handleCreateLink :: "rng \<Rightarrow> time \<Rightarrow> dash \<Rightarrow> server \<Rightarrow> (dash \<times> server) option" where
  "handleCreateLink rnd now d sv =
     (case create_request d of
        (d1, None) \<Rightarrow> Some (d1, sv)
      | (d1, Some b) \<Rightarrow>
          (case links_POST rnd now b sv of
             None \<Rightarrow> None
           | Some (r, sv') \<Rightarrow> Some (create_response r (links d) d1, sv')))"

text \<open>The \<open>setTimeout\<close> callbacks that clear the message.\<close>

definition clear_success :: "dash \<Rightarrow> dash" where
  "clear_success d = d\<lparr>success := None\<rparr>"

section \<open>Deleting a link: \<open>handleDeleteLink\<close>\<close>

definition delete_response :: "response \<Rightarrow> code_str \<Rightarrow> link list \<Rightarrow> dash \<Rightarrow> dash" where
  "delete_response r c cap d =
     (if \<not> resp_ok r then d\<lparr>error := Some ''Failed to delete link''\<rparr>
      else d\<lparr>links := filter (\<lambda>l. code l \<noteq> c) cap, success := Some ''Link deleted''\<rparr>)"

text \<open>\<open>confirmed\<close> is the answer to \<open>window.confirm\<close>.\<close>

definition handleDeleteLink :: "bool \<Rightarrow> code_str \<Rightarrow> dash \<Rightarrow> server \<Rightarrow> dash \<times> server" where
  "handleDeleteLink confirmed c d sv =
     (if \<not> confirmed then (d, sv)
      else (case link_DELETE c (db sv) of
              (r, st') \<Rightarrow> (delete_response r c (links d) d, sv\<lparr>db := st'\<rparr>)))"

section \<open>Copying a short link: \<open>copyToClipboard\<close>\<close>

text \<open>The base of the short link: \<open>process.env.NEXT_PUBLIC_BASE_URL || window.location.origin\<close>.\<close>

definition copy_baseUrl :: "string option \<Rightarrow> url \<Rightarrow> url" where
  "copy_baseUrl env origin = (case env of Some b \<Rightarrow> if b \<noteq> [] then b else origin | None \<Rightarrow> origin)"

definition short_url :: "url \<Rightarrow> code_str \<Rightarrow> url" where
  "short_url base c = base @ ''/'' @ c"

text \<open>The text written to the clipboard, and the state after the message is set.\<close>

definition copyToClipboard :: "string option \<Rightarrow> url \<Rightarrow> code_str \<Rightarrow> dash \<Rightarrow> string \<times> dash" where
  "copyToClipboard env origin c d =
     (let u = short_url (copy_baseUrl env origin) c in (u, d\<lparr>success := Some (''Copied: '' @ u)\<rparr>))"

section \<open>The search box: \<open>filteredLinks\<close>\<close>

definition filteredLinks :: "dash \<Rightarrow> link list" where
  "filteredLinks d =
     filter (\<lambda>l. js_includes (js_lower (code l)) (js_lower (searchTerm d)) \<or>
                 js_includes (js_lower (targetUrl l)) (js_lower (searchTerm d)))
            (links d)"

section \<open>The page as a sequence of user events\<close>

text \<open>
  The events the rendered page lets through, each running its handler to the
  end against the server. A disabled control fires nothing: the inputs are
  disabled while submitting or disconnected, and the submit button also when
  the URL is blank. The custom-code input has \<open>maxLength={8}\<close>.
\<close>

datatype ui_event =
    EvFetch
  | EvSubmit
  | EvDelete bool code_str
  | EvClearSuccess
  | EvTypeUrl string
  | EvTypeCode string
  | EvSearch string

definition submit_disabled :: "dash \<Rightarrow> bool" where
  "submit_disabled d \<longleftrightarrow> isSubmitting d \<or> js_trim (targetUrl_field d) = [] \<or> \<not> dbConnected d"

definition input_disabled :: "dash \<Rightarrow> bool" where
  "input_disabled d \<longleftrightarrow> isSubmitting d \<or> \<not> dbConnected d"

definition dash_step :: "rng \<Rightarrow> time \<Rightarrow> ui_event \<Rightarrow> dash \<Rightarrow> server \<Rightarrow> (dash \<times> server) option" where
  "dash_step rnd now ev d sv =
     (case ev of
        EvFetch \<Rightarrow> Some (fetchLinks_srv sv d, sv)
      | EvSubmit \<Rightarrow> if submit_disabled d then Some (d, sv) else handleCreateLink rnd now d sv
      | EvDelete ok c \<Rightarrow> Some (handleDeleteLink ok c d sv)
      | EvClearSuccess \<Rightarrow> Some (clear_success d, sv)
      | EvTypeUrl s \<Rightarrow> Some (if input_disabled d then d else d\<lparr>targetUrl_field := s\<rparr>, sv)
      | EvTypeCode s \<Rightarrow> Some (if input_disabled d then d else d\<lparr>customCode := take 8 s\<rparr>, sv)
      | EvSearch s \<Rightarrow> Some (d\<lparr>searchTerm := s\<rparr>, sv))"

section \<open>What the page shows\<close>

text \<open>
  The parts of the rendered page that depend on the state: the count above
  the list, the error and success banners (\<open>{error && ...}\<close>, shown for a
  non-empty string), the list panel (spinner while loading, the empty-state
  message, or the filtered rows), and whether the form controls are disabled.
\<close>

text \<open>
  One row of the list, from the row's JSON (\<open>filteredLinks.map((link, index) => ...)\<close>):
  its React key, the code, the target URL, the click count, the last click
  (\<open>link.lastClicked ? new Date(link.lastClicked) : 'Never'\<close>, where
  \<open>None\<close> is \<open>Never\<close> and \<open>Some None\<close> an Invalid Date), and the href of
  the statistics link. The copy and delete buttons of the row pass
  \<open>link.code\<close> to \<open>copyToClipboard\<close> and \<open>handleDeleteLink\<close>.
\<close>

record link_row =
  r_key :: nat
  r_code :: code_str
  r_targetUrl :: url
  r_clicks :: nat
  r_lastClicked :: "int option option"
  r_stats_href :: url

definition row_of :: "link \<Rightarrow> link_row" where
  "row_of l =
     (let j = link_to_json l in
      \<lparr>r_key = j_id j, r_code = j_code j, r_targetUrl = j_targetUrl j, r_clicks = j_clicks j,
       r_lastClicked = (case j_lastClicked j of None \<Rightarrow> None
                        | Some s \<Rightarrow> if s = [] then None else Some (iso_parse s)),
       r_stats_href = ''/code/'' @ j_code j\<rparr>)"

datatype list_view =
    ListLoading
  | ListEmpty string
  | ListRows "link_row list"

record dash_view =
  v_count :: nat
  v_error :: "string option"
  v_success :: "string option"
  v_list :: list_view
  v_submit_disabled :: bool
  v_inputs_disabled :: bool

definition banner :: "string option \<Rightarrow> string option" where
  "banner m = (if js_truthy m then m else None)"

definition dash_render :: "dash \<Rightarrow> dash_view" where
  "dash_render d =
     \<lparr>v_count = length (filteredLinks d),
      v_error = banner (error d),
      v_success = banner (success d),
      v_list =
        (if loading d then ListLoading
         else if filteredLinks d = [] then
           ListEmpty (if links d = [] then
                        (if dbConnected d then ''No links yet. Create your first one above!''
                         else ''Database not connected. Configure Neon to create links.'')
                      else ''No links match your search'')
         else ListRows (map row_of (filteredLinks d))),
      v_submit_disabled = submit_disabled d,
      v_inputs_disabled = input_disabled d\<rparr>"

section \<open>What the server lists\<close>

text \<open>The list \<open>GET /api/links\<close> answers on a connected database.\<close>

definition server_view :: "server \<Rightarrow> link list" where
  "server_view sv = rev (sort_key createdAt (rows (db sv)))"

text \<open>Fixtures used by the witnesses.\<close>

definition example_dash :: dash where
  "example_dash = dash_init\<lparr>targetUrl_field := ''https://example.com/a'', customCode := ''abc123''\<rparr>"

definition stale_dash :: dash where
  "stale_dash = example_dash\<lparr>links := [example_link], customCode := ''xyz789''\<rparr>"

section \<open>Properties of the dashboard\<close>


lemma js_includes_sublist: "js_includes s p \<longleftrightarrow> sublist p s"
proof
  assume "js_includes s p"
  then obtain i where "take (length p) (drop i s) = p"
    by (auto simp: js_includes_def list_ex_iff)
  then have "s = take i s @ p @ drop (length p) (drop i s)"
    by (metis append_take_drop_id)
  then show "sublist p s" by (metis sublist_appendI)
next
  assume "sublist p s"
  then obtain ps ss where s: "s = ps @ p @ ss" by (auto simp: sublist_def)
  then have "length ps < Suc (length s) \<and> take (length p) (drop (length ps) s) = p" by simp
  then show "js_includes s p" unfolding js_includes_def list_ex_iff
    by (metis atLeastLessThan_iff le0 set_upt)
qed

lemma row_of_json:
  assumes "link_times_ok l"
  shows "row_of l =
           \<lparr>r_key = link_id l, r_code = code l, r_targetUrl = targetUrl l, r_clicks = clicks l,
            r_lastClicked = map_option (\<lambda>t. Some (int t)) (lastClicked l),
            r_stats_href = ''/code/'' @ code l\<rparr>"
  using json_lastClicked [of l] assms
  by (simp add: row_of_def Let_def link_times_ok_def) (simp add: link_to_json_def)

lemma dash_render_rows:
  "v_list (dash_render d) = ListRows rs \<Longrightarrow> rs = map row_of (filteredLinks d)"
  by (simp add: dash_render_def split: if_splits)

text \<open>
  The search box keeps exactly the links whose code or target URL contains the
  search term, compared after \<open>toLowerCase\<close>.
\<close>

theorem filteredLinks_mem:
  "l \<in> set (filteredLinks d) \<longleftrightarrow>
     l \<in> set (links d) \<and>
     (sublist (js_lower (searchTerm d)) (js_lower (code l)) \<or>
      sublist (js_lower (searchTerm d)) (js_lower (targetUrl l)))"
  by (auto simp: filteredLinks_def js_includes_sublist)

lemma insort_key_snoc:
  "f x < f y \<Longrightarrow> insort_key f x (zs @ [y]) = insort_key f x zs @ [y]"
  by (induction zs) auto

lemma sort_key_snoc_max:
  "(\<forall>x\<in>set xs. f x < f y) \<Longrightarrow> sort_key f (xs @ [y]) = sort_key f xs @ [y]"
  by (induction xs) (auto simp: insort_key_snoc)

lemma links_POST_resp:
  "links_POST rnd now b sv = Some (r, sv') \<Longrightarrow>
     (db sv' = db sv \<and> \<not> resp_ok r) \<or>
     (\<exists>c u l st'. create (db sv) now c u = Inr (l, st') \<and> db sv' = st' \<and> r = JsonResp 201 (LinkBody l))"
  by (auto simp: links_POST_def post_explicit_def post_generated_def create_link_def resp_ok_def resp_status_def
      split: option.splits post_body.splits if_splits sum.splits prod.splits)

lemma link_DELETE_resp:
  "link_DELETE c st = (r, st') \<Longrightarrow>
     (st' = st \<and> \<not> resp_ok r) \<or> (\<exists>l. delete st c = Inr (l, st') \<and> r = JsonResp 200 SuccessBody)"
  by (auto simp: link_DELETE_def resp_ok_def resp_status_def split: sum.splits option.splits)

lemma server_view_create:
  assumes "create (db sv) now c u = Inr (l, st')" and "\<forall>x\<in>set (rows (db sv)). createdAt x < now"
  shows "server_view (sv\<lparr>db := st'\<rparr>) = l # server_view sv"
proof -
  from assms(1) have "rows st' = rows (db sv) @ [l]" and "createdAt l = now"
    by (auto simp: create_Inr new_link_def)
  with assms(2) show ?thesis by (simp add: server_view_def sort_key_snoc_max)
qed

lemma server_view_delete:
  "delete (db sv) c = Inr (l, st') \<Longrightarrow>
     server_view (sv\<lparr>db := st'\<rparr>) = filter (\<lambda>l. code l \<noteq> c) (server_view sv)"
  by (auto simp: delete_Inr server_view_def rev_filter [symmetric] filter_sort [symmetric])

lemma links_GET_connected:
  "connected st \<Longrightarrow> links_GET st = JsonResp 200 (LinksBody (rev (sort_key createdAt (rows st))))"
  by (simp add: links_GET_def findMany_def)

lemma fetchLinks_srv_connected:
  "connected (db sv) \<Longrightarrow>
     fetchLinks_srv sv d = d\<lparr>links := server_view sv, dbConnected := True, error := None, loading := False\<rparr>"
  by (simp add: fetchLinks_srv_def links_GET_connected fetchLinks_def resp_ok_def resp_status_def server_view_def)

lemma links_create_request: "create_request d = (d1, b) \<Longrightarrow> links d1 = links d"
  by (auto simp: create_request_def Let_def split: if_splits)

lemma create_response_not_ok: "\<not> resp_ok r \<Longrightarrow> links (create_response r cap d) = links d"
  by (simp add: create_response_def)

lemma handleCreateLink_sync:
  assumes "handleCreateLink rnd now d sv = Some (d', sv')"
    and "links d = server_view sv" and "\<forall>x\<in>set (rows (db sv)). createdAt x < now"
  shows "links d' = server_view sv'"
proof (cases "create_request d")
  case (Pair d1 ob)
  have l1: "links d1 = links d" using Pair by (rule links_create_request)
  show ?thesis
  proof (cases ob)
    case None
    with assms(1,2) Pair l1 show ?thesis by (simp add: handleCreateLink_def)
  next
    case (Some b)
    with assms(1) Pair obtain r where
      p: "links_POST rnd now b sv = Some (r, sv')" and d': "d' = create_response r (links d) d1"
      by (auto simp: handleCreateLink_def split: option.splits)
    from links_POST_resp [OF p] show ?thesis
    proof
      assume "db sv' = db sv \<and> \<not> resp_ok r"
      then show ?thesis using d' l1 assms(2) create_response_not_ok
        by (simp add: server_view_def)
    next
      assume "\<exists>c u l st'. create (db sv) now c u = Inr (l, st') \<and> db sv' = st' \<and> r = JsonResp 201 (LinkBody l)"
      then obtain c u l where cr: "create (db sv) now c u = Inr (l, db sv')" and r: "r = JsonResp 201 (LinkBody l)"
        by blast
      have "server_view sv' = l # server_view sv"
        using server_view_create [OF cr assms(3)] by (simp add: server_view_def)
      then show ?thesis using d' r assms(2)
        by (simp add: create_response_def resp_ok_def resp_status_def)
    qed
  qed
qed

lemma handleDeleteLink_sync:
  assumes "handleDeleteLink ok c d sv = (d', sv')" and "links d = server_view sv"
  shows "links d' = server_view sv'"
proof (cases "link_DELETE c (db sv)")
  case (Pair r st')
  from link_DELETE_resp [OF Pair] show ?thesis
  proof
    assume "st' = db sv \<and> \<not> resp_ok r"
    then show ?thesis using assms Pair
      by (auto simp: handleDeleteLink_def delete_response_def server_view_def split: if_splits)
  next
    assume "\<exists>l. delete (db sv) c = Inr (l, st') \<and> r = JsonResp 200 SuccessBody"
    then obtain l where dl: "delete (db sv) c = Inr (l, st')" and r: "r = JsonResp 200 SuccessBody" by blast
    show ?thesis using assms Pair r server_view_delete [OF dl]
      by (auto simp: handleDeleteLink_def delete_response_def resp_ok_def resp_status_def split: if_splits)
  qed
qed

text \<open>
  Claim C14: when the dashboard's list equals what \<open>GET /api/links\<close> answers, any one user
  event (reload, submit, delete, typing, search) keeps it equal, provided the database is
  connected and the clock is past every row's creation time: the client's prepend and
  filter implement the server's newest-first listing.
\<close>

theorem dash_step_sync:
  assumes "connected (db sv)" and "\<forall>x\<in>set (rows (db sv)). createdAt x < now"
    and "links d = server_view sv" and "dash_step rnd now ev d sv = Some (d', sv')"
  shows "links d' = server_view sv'"
proof (cases ev)
  case EvSubmit
  then show ?thesis using assms handleCreateLink_sync [of rnd now d sv d' sv']
    by (auto simp: dash_step_def split: if_splits)
next
  case (EvDelete ok c)
  then show ?thesis using assms handleDeleteLink_sync [of ok c d sv d' sv']
    by (simp add: dash_step_def)
qed (use assms in \<open>auto simp: dash_step_def fetchLinks_srv_connected clear_success_def split: if_splits\<close>)

lemma js_trim_Nil: "js_trim [] = []"
  by (simp add: js_trim_def)

lemma js_trim_no_ws: "(\<forall>x\<in>set s. \<not> js_ws x) \<Longrightarrow> js_trim s = s"
  by (simp add: js_trim_def dropWhile_eq_self_iff rev_nth) (metis dropWhile_eq_self_iff hd_in_set set_rev rev_is_Nil_conv rev_rev_ident)

lemma chars_not_ws: "x \<in> set chars \<Longrightarrow> \<not> js_ws x"
  by (auto simp: chars_def js_ws_def)

text \<open>
  Submitting with a blank URL or a disconnected database sends no request,
  leaves the server unchanged and shows the matching message.
\<close>

theorem handleCreateLink_refused:
  assumes "js_trim (targetUrl_field d) = [] \<or> \<not> dbConnected d"
  shows "handleCreateLink rnd now d sv =
           Some (d\<lparr>error := Some (if js_trim (targetUrl_field d) = [] then ''Please enter a URL''
                                    else ''Database not connected. Cannot create links.''),
                   success := None\<rparr>, sv)"
  using assms by (auto simp: handleCreateLink_def create_request_def Let_def)

text \<open>
  Claim C31: submitting a valid custom code that is already in the table shows
  \<open>This code already exists. Please choose another.\<close>, keeps the list and leaves
  the server unchanged.
\<close>

theorem handleCreateLink_taken:
  assumes "connected (db sv)" and "isValidCode c" and "c \<in> codes (db sv)"
    and "isValidUrl (targetUrl_field d)" and "js_trim (targetUrl_field d) \<noteq> []" and "dbConnected d"
    and "customCode d = c"
  shows "handleCreateLink rnd now d sv =
           Some (d\<lparr>error := Some ''This code already exists. Please choose another.'', success := None,
                   isSubmitting := False\<rparr>, sv)"
proof -
  have ne: "targetUrl_field d \<noteq> []" using assms(5) js_trim_Nil by auto
  have tc: "js_trim c \<noteq> []"
    using assms(2) js_trim_no_ws [of c] chars_not_ws isValidCode_nonempty [OF assms(2)]
    by (auto simp: isValidCode_chars subset_iff)
  show ?thesis
    using assms ne tc isValidCode_nonempty [OF assms(2)]
    by (simp add: handleCreateLink_def create_request_def links_POST_valid_url post_explicit_taken
        create_response_def resp_status_def)
qed

lemma create_request_Some:
  "create_request d = (d1, Some b) \<Longrightarrow> links d1 = links d \<and> isSubmitting d1"
  by (auto simp: create_request_def Let_def split: if_splits)

lemma link_DELETE_present:
  assumes "store_inv st" and "connected st" and "y \<in> set (rows st)"
  shows "link_DELETE (code y) st =
           (JsonResp 200 SuccessBody, st\<lparr>rows := filter (\<lambda>l. code l \<noteq> code y) (rows st)\<rparr>)"
proof -
  have "find (\<lambda>l. code l = code y) (rows st) = Some y"
    using assms(1,3) by (simp add: store_inv_def find_distinct_key)
  with assms(2) show ?thesis
    by (simp add: link_DELETE_def findUnique_def delete_def)
qed

text \<open>
  Claim C15: a delete that completes while a create is awaiting its answer is undone on
  screen: the create's closure prepends the new link to the list it captured, so
  the deleted link is shown again although the server no longer holds it.
\<close>

theorem create_delete_stale:
  assumes inv: "store_inv (db sv)" and con: "connected (db sv)" and y: "y \<in> set (rows (db sv))"
    and sync: "links d0 = server_view sv"
    and req: "create_request d0 = (d1, Some b)"
    and del: "handleDeleteLink True (code y) d1 sv = (d2, sv2)"
    and post: "links_POST rnd now b sv2 = Some (r, sv3)" and ok: "resp_ok r"
  shows "y \<in> set (links (create_response r (links d0) d2)) \<and> y \<notin> set (server_view sv3)"
proof -
  let ?st2 = "(db sv)\<lparr>rows := filter (\<lambda>l. code l \<noteq> code y) (rows (db sv))\<rparr>"
  have sv2: "sv2 = sv\<lparr>db := ?st2\<rparr>"
    using del link_DELETE_present [OF inv con y] by (simp add: handleDeleteLink_def)
  from links_POST_resp [OF post] ok obtain c u l where
    cr: "create ?st2 now c u = Inr (l, db sv3)" and r: "r = JsonResp 201 (LinkBody l)"
    using sv2 by auto
  have rows3: "rows (db sv3) = filter (\<lambda>l. code l \<noteq> code y) (rows (db sv)) @ [l]"
    and lid: "link_id l = next_id (db sv)"
    using cr by (auto simp: create_Inr new_link_def)
  have "link_id y < next_id (db sv)" using inv y by (auto simp: store_inv_def)
  with lid have "y \<noteq> l" by auto
  then have out: "y \<notin> set (server_view sv3)" using rows3 by (simp add: server_view_def)
  have "y \<in> set (links d0)" using sync y by (simp add: server_view_def)
  then show ?thesis using out r by (simp add: create_response_def resp_status_def resp_ok_def)
qed

text \<open>
  Claim C32: when the database is unreachable, reloading the list makes the page
  show the disconnected state rather than an empty table: the error banner and
  the disconnected message, no rows, the form disabled, and a submit sends nothing.
\<close>

theorem dashboard_unavailable:
  assumes "\<not> connected (db sv)"
  shows "v_list (dash_render (fetchLinks_srv sv d)) = ListEmpty ''Database not connected. Configure Neon to create links.'' \<and>
         v_error (dash_render (fetchLinks_srv sv d)) = Some ''Database not connected. Please configure your Neon database.'' \<and>
         v_count (dash_render (fetchLinks_srv sv d)) = 0 \<and>
         v_submit_disabled (dash_render (fetchLinks_srv sv d)) \<and> v_inputs_disabled (dash_render (fetchLinks_srv sv d)) \<and>
         dash_step rnd now EvSubmit (fetchLinks_srv sv d) sv = Some (fetchLinks_srv sv d, sv)"
  using assms
  by (simp add: fetchLinks_srv_def links_GET_def findMany_def fetchLinks_def resp_ok_def resp_status_def
      dash_render_def filteredLinks_def banner_def submit_disabled_def input_disabled_def dash_step_def)

lemma example_dash_simps [simp]:
  "links example_dash = []" "targetUrl_field example_dash = ''https://example.com/a''"
  "customCode example_dash = ''abc123''" "dbConnected example_dash" "\<not> isSubmitting example_dash"
  by (simp_all add: example_dash_def dash_init_def)

lemma example_dash_trim:
  "js_trim ''https://example.com/a'' = ''https://example.com/a''" "js_trim ''abc123'' = ''abc123''"
  by (simp_all add: js_trim_def js_ws_def)

lemma isValidCode_abc123: "isValidCode ''abc123''"
  by (simp add: isValidCode_chars chars_def)

theorem dash_step_sync_witness:
  "\<exists>d' sv'. dash_step (\<lambda>_. 0) 1 EvSubmit example_dash example_server = Some (d', sv') \<and>
     links d' = server_view sv' \<and> links d' \<noteq> []"
proof -
  let ?l = "new_link empty_store 1 ''abc123'' ''https://example.com/a''"
  let ?sv' = "example_server\<lparr>db := empty_store\<lparr>rows := [?l], next_id := 1\<rparr>\<rparr>"
  have e: "dash_step (\<lambda>_. 0) 1 EvSubmit example_dash example_server =
             Some (create_response (JsonResp 201 (LinkBody ?l)) [] (fst (create_request example_dash)), ?sv')"
    using isValidUrl_example isValidCode_abc123
    by (simp add: dash_step_def submit_disabled_def example_dash_trim handleCreateLink_def create_request_def
        links_POST_def post_explicit_def create_link_def create_def example_server_def empty_store_def codes_def
        findUnique_def)
  have "links example_dash = server_view example_server"
    by (simp add: server_view_def example_server_def empty_store_def)
  then have "links (create_response (JsonResp 201 (LinkBody ?l)) [] (fst (create_request example_dash))) = server_view ?sv'"
    using dash_step_sync [OF _ _ _ e] by (simp add: example_server_def empty_store_def)
  with e show ?thesis by (simp add: create_response_def resp_ok_def resp_status_def)
qed

theorem handleCreateLink_refused_witness:
  "handleCreateLink (\<lambda>_. 0) 0 dash_init example_server =
     Some (dash_init\<lparr>error := Some ''Please enter a URL'', success := None\<rparr>, example_server)"
  using handleCreateLink_refused [of dash_init] by (simp add: dash_init_def js_trim_Nil)

theorem handleCreateLink_taken_witness:
  "handleCreateLink (\<lambda>_. 0) 0 example_dash \<lparr>db = example_store, rng_pos = 0\<rparr> =
     Some (example_dash\<lparr>error := Some ''This code already exists. Please choose another.'', success := None,
                         isSubmitting := False\<rparr>, \<lparr>db = example_store, rng_pos = 0\<rparr>)"
  using handleCreateLink_taken [of "\<lparr>db = example_store, rng_pos = 0\<rparr>" "''abc123''" example_dash]
    isValidUrl_example isValidCode_abc123
  by (simp add: example_store_def example_link_def codes_def example_dash_trim)

theorem create_delete_stale_witness:
  "\<exists>d1 b d2 sv2 r sv3.
     store_inv example_store \<and> connected example_store \<and> example_link \<in> set (rows example_store) \<and>
     links stale_dash = server_view \<lparr>db = example_store, rng_pos = 0\<rparr> \<and>
     create_request stale_dash = (d1, Some b) \<and>
     handleDeleteLink True (code example_link) d1 \<lparr>db = example_store, rng_pos = 0\<rparr> = (d2, sv2) \<and>
     links_POST (\<lambda>_. 0) 1 b sv2 = Some (r, sv3) \<and> resp_ok r \<and>
     example_link \<in> set (links (create_response r (links stale_dash) d2)) \<and>
     example_link \<notin> set (server_view sv3)"
proof -
  let ?sv = "\<lparr>db = example_store, rng_pos = 0\<rparr>"
  let ?b = "PostBody (Some ''https://example.com/a'') (Some ''xyz789'')"
  let ?d1 = "fst (create_request stale_dash)"
  let ?st2 = "example_store\<lparr>rows := []\<rparr>"
  let ?l = "new_link ?st2 1 ''xyz789'' ''https://example.com/a''"
  let ?r = "JsonResp 201 (LinkBody ?l)"
  let ?sv3 = "?sv\<lparr>db := ?st2\<lparr>rows := [?l], next_id := Suc (next_id ?st2)\<rparr>\<rparr>"
  have inv: "store_inv (db ?sv)" "connected (db ?sv)" "example_link \<in> set (rows (db ?sv))"
    by (simp_all add: store_inv_def example_store_def example_link_def clicked_ok_def)
  have sync: "links stale_dash = server_view ?sv"
    by (simp add: stale_dash_def example_dash_def dash_init_def server_view_def example_store_def)
  have tr: "js_trim ''xyz789'' = ''xyz789''" by (simp add: js_trim_def js_ws_def)
  have req: "create_request stale_dash = (?d1, Some ?b)"
    by (simp add: create_request_def stale_dash_def example_dash_def dash_init_def example_dash_trim tr Let_def)
  have del: "handleDeleteLink True (code example_link) ?d1 ?sv = (delete_response (JsonResp 200 SuccessBody) (code example_link) (links ?d1) ?d1, ?sv\<lparr>db := ?st2\<rparr>)"
    using link_DELETE_present [OF inv]
    by (simp add: handleDeleteLink_def example_store_def example_link_def)
  have vc: "isValidCode ''xyz789''" by (simp add: isValidCode_chars chars_def)
  have post: "links_POST (\<lambda>_. 0) 1 ?b (?sv\<lparr>db := ?st2\<rparr>) = Some (?r, ?sv3)"
    using isValidUrl_example vc
    by (simp add: links_POST_def post_explicit_def create_link_def create_def findUnique_def codes_def
        example_store_def)
  have ok: "resp_ok ?r" by (simp add: resp_ok_def resp_status_def)
  have inv': "store_inv example_store" "connected example_store" "example_link \<in> set (rows example_store)"
    using inv by simp_all
  from create_delete_stale [OF inv sync req del post ok] inv' sync req del post ok show ?thesis
    by blast
qed

theorem dashboard_unavailable_witness:
  "v_list (dash_render (fetchLinks_srv (example_server\<lparr>db := empty_store\<lparr>connected := False\<rparr>\<rparr>) dash_init)) =
     ListEmpty ''Database not connected. Configure Neon to create links.''"
  using dashboard_unavailable [of "example_server\<lparr>db := empty_store\<lparr>connected := False\<rparr>\<rparr>" dash_init]
  by simp

end
