(* ===== verification/Stats.thy ===== *)
theory Stats
  imports Dashboard
begin

text \<open>
  The statistics page of \<open>src/app/code/[code]/page.tsx\<close>: its React state,
  the effect that loads the row from \<open>GET /api/links/[code]\<close>, what the page
  renders from that state (loading, error, or the statistics with the values
  it derives), and the base URL of the short link it shows, set beside the
  one the dashboard's copy button uses. The page holds the link as the JSON
  the route sent (theory \<open>Wire\<close>), its dates as ISO strings, and reads them
  back with \<open>new Date\<close> (theory \<open>Dates\<close>).
\<close>

section \<open>State and loading\<close>

record stats =
  st_code :: "code_str option"
  st_link :: "link_json option"
  st_loading :: bool
  st_error :: "string option"

definition stats_init :: stats where
  "stats_init = \<lparr>st_code = None, st_link = None, st_loading = True, st_error = None\<rparr>"

text \<open>\<open>params.then(({code}) => setCode(code))\<close>\<close>

definition set_param :: "code_str \<Rightarrow> stats \<Rightarrow> stats" where
  "set_param c s = s\<lparr>st_code := Some c\<rparr>"

text \<open>
  \<open>fetchLink\<close> after its \<open>fetch\<close>: any status outside 200--299 throws
  \<open>'Link not found'\<close> into the \<open>catch\<close>. A 2xx body other than a link does
  not come from the route and is left out (only \<open>finally\<close> runs).
\<close>

definition fetchLink_response :: "response \<Rightarrow> stats \<Rightarrow> stats" where
  "fetchLink_response r s =
     (if \<not> resp_ok r then s\<lparr>st_error := Some ''Link not found'', st_loading := False\<rparr>
      else (case r of
              JsonResp _ (LinkBody l) \<Rightarrow> s\<lparr>st_link := Some (link_to_json l), st_error := None, st_loading := False\<rparr>
            | _ \<Rightarrow> s\<lparr>st_loading := False\<rparr>))"

text \<open>The second effect: nothing while \<open>code\<close> is unset or empty.\<close>

definition stats_effect :: "server \<Rightarrow> stats \<Rightarrow> stats" where
  "stats_effect sv s =
     (case st_code s of
        None \<Rightarrow> s
      | Some c \<Rightarrow> if c = [] then s else fetchLink_response (link_GET c (db sv)) s)"

section \<open>What the page shows\<close>

text \<open>
  \<open>process.env.NEXT_PUBLIC_BASE_URL || typeof window !== 'undefined' ?
  window.location.origin : 'http://localhost:3000'\<close>, parsed as JavaScript
  parses it: \<open>||\<close> binds tighter than \<open>?:\<close>.
\<close>

definition stats_baseUrl :: "string option \<Rightarrow> bool \<Rightarrow> url \<Rightarrow> url" where
  "stats_baseUrl env window_defined origin =
     (if js_truthy env \<or> window_defined then origin else ''http://localhost:3000'')"

text \<open>
  \<open>new Date(link.createdAt)\<close>, then
  \<open>Math.floor((Date.now() - createdDate.getTime()) / 86400000)\<close>: floor
  division of the age in milliseconds, negative when \<open>createdAt\<close> lies
  ahead of the browser's clock; \<open>None\<close> is \<open>NaN\<close>, from a string
  \<open>Date.parse\<close> rejects, and it propagates through \<open>Math.max\<close> and the
  division of \<open>clicks / Math.max(1, daysOld)\<close> (before \<open>toFixed(1)\<close> formats it).
\<close>

definition daysOld :: "time \<Rightarrow> link_json \<Rightarrow> int option" where
  "daysOld now j = map_option (\<lambda>c. (int now - c) div 86400000) (iso_parse (j_createdAt j))"

definition clicksPerDay :: "time \<Rightarrow> link_json \<Rightarrow> rat option" where
  "clicksPerDay now j = map_option (\<lambda>d. of_nat (j_clicks j) / of_int (max 1 d)) (daysOld now j)"

text \<open>\<open>link.lastClicked ? new Date(link.lastClicked) : null\<close>\<close>

definition lastClickedDate :: "link_json \<Rightarrow> int option option" where
  "lastClickedDate j =
     (case j_lastClicked j of None \<Rightarrow> None | Some s \<Rightarrow> if s = [] then None else Some (iso_parse s))"

text \<open>
  The values the statistics panel shows, each from the JSX expression that
  renders it: \<open>{link.code}\<close>, \<open>{link.clicks.toLocaleString()}\<close>, the last
  activity (\<open>lastClickedDate ? ... : 'No clicks'\<close>), \<open>{shortUrl}\<close> and the text
  both copy buttons write (\<open>navigator.clipboard.writeText(shortUrl)\<close>), the
  href of the target links (\<open>href={link.targetUrl}\<close>), the creation and update
  times (\<open>createdDate\<close>, \<open>new Date(link.updatedAt)\<close>), \<open>{daysOld}\<close> and
  \<open>{clicksPerDay}\<close>. Dates are the time values before \<open>toLocaleDateString\<close>
  formats them; \<open>None\<close> is an Invalid Date.
\<close>

record stats_panel =
  p_code :: code_str
  p_clicks :: nat
  p_lastClicked :: "int option option"
  p_shortUrl :: url
  p_copy_text :: url
  p_target_href :: url
  p_created :: "int option"
  p_updated :: "int option"
  p_daysOld :: "int option"
  p_clicksPerDay :: "rat option"

definition panel_of :: "time \<Rightarrow> url \<Rightarrow> link_json \<Rightarrow> stats_panel" where
  "panel_of now baseUrl j =
     (let shortUrl = short_url baseUrl (j_code j) in
      \<lparr>p_code = j_code j, p_clicks = j_clicks j, p_lastClicked = lastClickedDate j,
       p_shortUrl = shortUrl, p_copy_text = shortUrl, p_target_href = j_targetUrl j,
       p_created = iso_parse (j_createdAt j), p_updated = iso_parse (j_updatedAt j),
       p_daysOld = daysOld now j, p_clicksPerDay = clicksPerDay now j\<rparr>)"

datatype stats_view =
    LoadingView
  | ErrorView string
  | StatsView stats_panel

definition stats_render :: "time \<Rightarrow> string option \<Rightarrow> bool \<Rightarrow> url \<Rightarrow> stats \<Rightarrow> stats_view" where
  "stats_render now env window_defined origin s =
     (if st_loading s then LoadingView
      else (case st_link s of
              None \<Rightarrow> ErrorView (case st_error s of Some e \<Rightarrow> if e \<noteq> [] then e else ''Link not found''
                                                | None \<Rightarrow> ''Link not found'')
            | Some j \<Rightarrow>
                if js_truthy (st_error s) then ErrorView (the (st_error s))
                else StatsView (panel_of now (stats_baseUrl env window_defined origin) j)))"

section \<open>Properties of the statistics page\<close>


lemma link_GET_missing:
  "\<not> connected st \<or> store_map st c = None \<Longrightarrow> \<not> resp_ok (link_GET c st)"
  by (auto simp: link_GET_def findUnique_map resp_ok_def resp_status_def)

lemma stats_page_row:
  assumes "connected (db sv)" and "store_map (db sv) c = Some l" and "c \<noteq> []"
  shows "stats_render now env w origin (stats_effect sv (set_param c stats_init)) =
           StatsView (panel_of now (stats_baseUrl env w origin) (link_to_json l))"
  using assms
  by (simp add: stats_effect_def set_param_def stats_init_def link_GET_found fetchLink_response_def
      resp_ok_def resp_status_def stats_render_def)

lemma panel_of_json:
  assumes "link_times_ok l"
  shows "panel_of now b (link_to_json l) =
           \<lparr>p_code = code l, p_clicks = clicks l, p_lastClicked = map_option (\<lambda>t. Some (int t)) (lastClicked l),
            p_shortUrl = short_url b (code l), p_copy_text = short_url b (code l), p_target_href = targetUrl l,
            p_created = Some (int (createdAt l)), p_updated = Some (int (updatedAt l)),
            p_daysOld = Some ((int now - int (createdAt l)) div 86400000),
            p_clicksPerDay = Some (of_nat (clicks l) / of_int (max 1 ((int now - int (createdAt l)) div 86400000)))\<rparr>"
proof -
  have t: "createdAt l \<le> 8640000000000000" "updatedAt l \<le> 8640000000000000"
    "\<forall>t\<in>set_option (lastClicked l). t \<le> 8640000000000000"
    using assms by (simp_all add: link_times_ok_def)
  have "lastClickedDate (link_to_json l) = map_option (\<lambda>t. Some (int t)) (lastClicked l)"
    using json_lastClicked [OF t(3)] by (simp add: lastClickedDate_def)
  with t(1,2) show ?thesis
    by (simp add: panel_of_def Let_def daysOld_def clicksPerDay_def)
       (simp add: link_to_json_def iso_parse_iso_string)
qed

text \<open>
  Claim C27: the statistics page of a code in the table shows the stored row: its
  code, clicks, last click, target, creation and update times as stored, its short
  URL (also what the copy buttons write), its age in whole days and its clicks per day.
\<close>

theorem stats_page_found:
  assumes "connected (db sv)" and "store_map (db sv) c = Some l" and "c \<noteq> []"
    and "link_times_ok l"
  shows "stats_render now env w origin (stats_effect sv (set_param c stats_init)) =
           StatsView \<lparr>p_code = c, p_clicks = clicks l, p_lastClicked = map_option (\<lambda>t. Some (int t)) (lastClicked l),
             p_shortUrl = short_url (stats_baseUrl env w origin) c,
             p_copy_text = short_url (stats_baseUrl env w origin) c, p_target_href = targetUrl l,
             p_created = Some (int (createdAt l)), p_updated = Some (int (updatedAt l)),
             p_daysOld = Some ((int now - int (createdAt l)) div 86400000),
             p_clicksPerDay = Some (of_nat (clicks l) / of_int (max 1 ((int now - int (createdAt l)) div 86400000)))\<rparr>"
proof -
  have "code l = c" using assms(2) by (auto simp: store_map_def dest: map_of_keyed_Some)
  with assms show ?thesis by (simp add: stats_page_row panel_of_json)
qed

text \<open>
  Claim C38: the statistics page of a code the server cannot answer for shows
  \<open>Link not found\<close>, also when the database query fails.
\<close>

theorem stats_page_not_found:
  assumes "\<not> connected (db sv) \<or> store_map (db sv) c = None" and "c \<noteq> []"
  shows "stats_render now env w origin (stats_effect sv (set_param c stats_init)) = ErrorView ''Link not found''"
  using assms link_GET_missing [OF assms(1)]
  by (simp add: stats_effect_def set_param_def stats_init_def fetchLink_response_def stats_render_def)

text \<open>
  Claim C30: with \<open>NEXT_PUBLIC_BASE_URL\<close> set, the statistics page shows a short URL
  on the page's own origin while the dashboard's copy button uses the configured base:
  the conditional expression of the page ignores the variable.
\<close>

theorem stats_short_url_diverges:
  assumes "b \<noteq> []" and "b \<noteq> origin"
  shows "short_url (stats_baseUrl (Some b) w origin) c = short_url origin c \<and>
         fst (copyToClipboard (Some b) origin c d) = short_url b c \<and>
         short_url (stats_baseUrl (Some b) w origin) c \<noteq> fst (copyToClipboard (Some b) origin c d)"
  using assms by (simp add: stats_baseUrl_def copyToClipboard_def copy_baseUrl_def short_url_def Let_def)

theorem stats_page_found_witness:
  "stats_render 0 None True ''http://localhost:3000'' (stats_effect \<lparr>db = example_store, rng_pos = 0\<rparr>
     (set_param ''abc123'' stats_init)) =
   StatsView \<lparr>p_code = ''abc123'', p_clicks = 0, p_lastClicked = None,
     p_shortUrl = ''http://localhost:3000/abc123'', p_copy_text = ''http://localhost:3000/abc123'',
     p_target_href = ''https://example.com/a'', p_created = Some 0, p_updated = Some 0,
     p_daysOld = Some 0, p_clicksPerDay = Some 0\<rparr>"
  using stats_page_found [of "\<lparr>db = example_store, rng_pos = 0\<rparr>" "''abc123''" example_link 0 None True
      "''http://localhost:3000''"]
  by (simp add: example_store_def example_link_def store_map_def short_url_def stats_baseUrl_def
      link_times_ok_def)

theorem stats_page_not_found_witness:
  "stats_render 0 None True ''o'' (stats_effect example_server (set_param ''zzzzzz'' stats_init)) =
   ErrorView ''Link not found''"
  using stats_page_not_found [of example_server "''zzzzzz''" 0 None True "''o''"]
  by (simp add: example_server_def empty_store_def store_map_def)

theorem stats_short_url_diverges_witness:
  "short_url (stats_baseUrl (Some ''https://tiny.example'') True ''http://localhost:3000'') ''abc123'' =
     ''http://localhost:3000/abc123'' \<and>
   fst (copyToClipboard (Some ''https://tiny.example'') ''http://localhost:3000'' ''abc123'' dash_init) =
     ''https://tiny.example/abc123''"
  using stats_short_url_diverges [of "''https://tiny.example''" "''http://localhost:3000''" True "''abc123''" dash_init]
  by (simp add: short_url_def)

end
