(* ===== verification/App.thy ===== *)
theory App
  imports Stats
begin

text \<open>
  The application as the browser meets it: the Next.js app router that maps a
  URL path to a page or a route file of \<open>src/app\<close>, the root layout of
  \<open>src/app/layout.tsx\<close> that wraps every page, and a visit to a path, which
  renders a page after its effects have run or answers from a route handler.
  The lemmas connect the components through the paths the code builds: the
  statistics link of a dashboard row, the short URL the copy button writes,
  and the API paths the pages fetch.
\<close>

section \<open>The root layout\<close>

record metadata =
  title :: string
  description :: string

definition metadata :: metadata where
  "metadata = \<lparr>title = ''TinyLink - URL Shortener'', description = ''A simple and fast URL shortener service''\<rparr>"

datatype page_view = DashDoc dash_view | StatsDoc stats_view

text \<open>
  \<open>RootLayout({children})\<close>: the page inside \<open>html lang="en"\<close> and a
  \<open>body\<close> with the layout's class; Next.js writes the exported \<open>metadata\<close>
  into the document head.
\<close>

record document =
  doc_lang :: string
  doc_title :: string
  doc_description :: string
  doc_body_class :: string
  doc_children :: page_view

definition RootLayout :: "page_view \<Rightarrow> document" where
  "RootLayout children =
     \<lparr>doc_lang = ''en'', doc_title = title metadata, doc_description = description metadata,
      doc_body_class = ''bg-gradient-to-b from-slate-950 via-purple-950 to-slate-950 text-white'',
      doc_children = children\<rparr>"

section \<open>The app router\<close>

text \<open>A path cut at each \<open>/\<close>; a path that starts with \<open>/\<close> begins with an empty segment.\<close>

definition split_path :: "string \<Rightarrow> string list" where
  "split_path p = split_on (CHR ''/'') p"

text \<open>
  The files of \<open>src/app\<close> and the paths they serve: \<open>page.tsx\<close> at \<open>/\<close>,
  \<open>[code]/route.ts\<close> at \<open>/c\<close>, \<open>code/[code]/page.tsx\<close> at \<open>/code/c\<close>,
  \<open>api/links/route.ts\<close> at \<open>/api/links\<close> and \<open>api/links/[code]/route.ts\<close>
  at \<open>/api/links/c\<close>, a dynamic segment matching any non-empty segment and
  a static segment taking precedence over it. Every other path is the
  not-found page (\<open>None\<close>); so is a path with a trailing slash, which Next.js
  answers with a redirect to the path without it.
\<close>

datatype endpoint =
    DashboardPage
  | StatsPage code_str
  | RedirectRoute code_str
  | LinksRoute
  | LinkRoute code_str

definition route :: "string \<Rightarrow> endpoint option" where
  "route p =
     (case split_path p of
        [[], s] \<Rightarrow> Some (if s = [] then DashboardPage else RedirectRoute s)
      | [[], a, b] \<Rightarrow>
          if a = ''code'' \<and> b \<noteq> [] then Some (StatsPage b)
          else if a = ''api'' \<and> b = ''links'' then Some LinksRoute else None
      | [[], a, b, c] \<Rightarrow> if a = ''api'' \<and> b = ''links'' \<and> c \<noteq> [] then Some (LinkRoute c) else None
      | _ \<Rightarrow> None)"

text \<open>
  The request a route file's exported handler receives for a method: \<open>GET\<close>
  of \<open>[code]/route.ts\<close>, \<open>GET\<close> and \<open>POST\<close> of \<open>api/links/route.ts\<close>, \<open>GET\<close>
  and \<open>DELETE\<close> of \<open>api/links/[code]/route.ts\<close>; \<open>None\<close> is a page or a
  method the file does not export (answered 405 by Next.js).
\<close>

datatype http_method = GET | POST | DELETE

definition api_request :: "http_method \<Rightarrow> endpoint \<Rightarrow> post_body \<Rightarrow> request option" where
  "api_request m e b =
     (case (m, e) of
        (GET, RedirectRoute c) \<Rightarrow> Some (GetRedirect c)
      | (GET, LinksRoute) \<Rightarrow> Some GetLinks
      | (POST, LinksRoute) \<Rightarrow> Some (PostLinks b)
      | (GET, LinkRoute c) \<Rightarrow> Some (GetLink c)
      | (DELETE, LinkRoute c) \<Rightarrow> Some (DeleteLink c)
      | _ \<Rightarrow> None)"

section \<open>Visiting a path\<close>

text \<open>
  What a browser shows after navigating to a path on the app's origin: a page
  inside the root layout, rendered after its mount effects have run against
  the server (\<open>fetchLinks\<close> for the dashboard, the two effects of the
  statistics page, with \<open>window\<close> defined), or the answer of a route handler
  to a \<open>GET\<close>.
\<close>

datatype served = Document document | Api response | NotFound

definition visit :: "rng \<Rightarrow> time \<Rightarrow> string option \<Rightarrow> url \<Rightarrow> string \<Rightarrow> server \<Rightarrow> served \<times> server" where
  "visit rnd now env origin p sv =
     (case route p of
        None \<Rightarrow> (NotFound, sv)
      | Some DashboardPage \<Rightarrow> (Document (RootLayout (DashDoc (dash_render (fetchLinks_srv sv dash_init)))), sv)
      | Some (StatsPage c) \<Rightarrow>
          (Document (RootLayout (StatsDoc (stats_render now env True origin (stats_effect sv (set_param c stats_init))))), sv)
      | Some e \<Rightarrow>
          (case api_request GET e (PostBody None None) of
             None \<Rightarrow> (NotFound, sv)
           | Some rq \<Rightarrow> (case serve rnd now rq sv of None \<Rightarrow> (NotFound, sv) | Some (r, sv') \<Rightarrow> (Api r, sv'))))"

section \<open>Properties of the application\<close>

lemma valid_code_segment: "isValidCode c \<Longrightarrow> c \<noteq> [] \<and> CHR ''/'' \<notin> set c"
proof -
  assume "isValidCode c"
  then have "6 \<le> length c" "set c \<subseteq> set chars" by (simp_all add: isValidCode_chars)
  moreover have "CHR ''/'' \<notin> set chars" by (simp add: chars_def)
  ultimately show ?thesis by auto
qed

lemma split_code_paths:
  assumes "CHR ''/'' \<notin> set c"
  shows "split_path (''/'' @ c) = [[], c]"
    and "split_path (''/code/'' @ c) = [[], ''code'', c]"
    and "split_path (''/api/links/'' @ c) = [[], ''api'', ''links'', c]"
  using split_on_none [OF assms] by (simp_all add: split_path_def Let_def)

lemma store_map_row: "store_inv st \<Longrightarrow> l \<in> set (rows st) \<Longrightarrow> store_map st (code l) = Some l"
  unfolding store_inv_def store_map_def
  by (rule map_of_is_SomeI) (simp_all add: comp_def)

lemma rendered_row:
  assumes "v_list (dash_render d) = ListRows rs" and "r \<in> set rs" and "links d = server_view sv"
  obtains l where "l \<in> set (rows (db sv))" and "r = row_of l"
proof -
  have "rs = map row_of (filteredLinks d)" using assms(1) by (rule dash_render_rows)
  with assms(2) obtain l where "l \<in> set (filteredLinks d)" "r = row_of l" by auto
  moreover from this(1) assms(3) have "l \<in> set (rows (db sv))"
    by (simp add: filteredLinks_def server_view_def)
  ultimately show ?thesis using that by blast
qed

text \<open>
  Claim C28: the paths the pages build from a valid code reach the intended files of
  the app router: the path of the short URL \<open>${baseUrl}/${code}\<close> the redirect route,
  the statistics link \<open>/code/${link.code}\<close> of a dashboard row the statistics page, and
  \<open>/api/links/${code}\<close> the link route; no valid code is taken by a static segment.
\<close>

theorem client_paths_route:
  assumes "isValidCode (code l)"
  shows "route (drop (length origin) (short_url origin (code l))) = Some (RedirectRoute (code l)) \<and>
         route (r_stats_href (row_of l)) = Some (StatsPage (code l)) \<and>
         route (''/api/links/'' @ code l) = Some (LinkRoute (code l))"
proof -
  have c: "code l \<noteq> []" "CHR ''/'' \<notin> set (code l)" using valid_code_segment [OF assms] by simp_all
  have "r_stats_href (row_of l) = ''/code/'' @ code l" by (simp add: row_of_def Let_def link_to_json_def)
  then show ?thesis using c split_code_paths [OF c(2)] by (simp add: route_def short_url_def)
qed

text \<open>
  Claim C16: the statistics link of any row the dashboard lists opens the statistics
  page of that row, and the page agrees with the row on the code, the clicks, the
  target and the last click, and shows the short URL on the page's origin.
\<close>

theorem dashboard_stats_link:
  assumes "connected (db sv)" and "store_inv (db sv)" and "rows_wf (db sv)"
    and "\<forall>l\<in>set (rows (db sv)). link_times_ok l" and "links d = server_view sv"
    and "v_list (dash_render d) = ListRows rs" and "r \<in> set rs"
  shows "\<exists>p. visit rnd now env origin (r_stats_href r) sv = (Document (RootLayout (StatsDoc (StatsView p))), sv) \<and>
             p_code p = r_code r \<and> p_clicks p = r_clicks r \<and> p_target_href p = r_targetUrl r \<and>
             p_lastClicked p = r_lastClicked r \<and> p_shortUrl p = short_url origin (r_code r)"
proof -
  obtain l where l: "l \<in> set (rows (db sv))" "r = row_of l" using rendered_row [OF assms(6,7,5)] .
  have t: "link_times_ok l" using assms(4) l(1) by blast
  have c: "code l \<noteq> []" "CHR ''/'' \<notin> set (code l)"
    using valid_code_segment assms(3) l(1) by (auto simp: rows_wf_def row_wf_def)
  have r: "r = \<lparr>r_key = link_id l, r_code = code l, r_targetUrl = targetUrl l, r_clicks = clicks l,
                 r_lastClicked = map_option (\<lambda>t. Some (int t)) (lastClicked l), r_stats_href = ''/code/'' @ code l\<rparr>"
    using l(2) row_of_json [OF t] by simp
  have s: "stats_render now env True origin (stats_effect sv (set_param (code l) stats_init)) =
             StatsView (panel_of now origin (link_to_json l))"
    using stats_page_row [OF assms(1) store_map_row [OF assms(2) l(1)] c(1)] by (simp add: stats_baseUrl_def)
  show ?thesis
    using s panel_of_json [OF t, of now origin] split_code_paths(2) [OF c(2)] c(1)
    by (simp add: r visit_def route_def RootLayout_def)
qed

text \<open>
  Claim C36: the URL validator accepts \<open>javascript:alert(1)\<close>, a URL without a
  host, and a link created with it through the API is served as it is: the redirect
  sends it as the \<open>Location\<close> of a 302, and the statistics page uses it as the
  href of its target links.
\<close>

theorem javascript_target_served:
  assumes "connected (db sv)" and "isValidCode c" and "c \<notin> codes (db sv)"
  shows "\<exists>l sv1. serve rnd t0 (PostLinks (PostBody (Some ''javascript:alert(1)'') (Some c))) sv =
                   Some (JsonResp 201 (LinkBody l), sv1) \<and>
           fst (visit rnd t1 env origin (''/'' @ c) sv1) = Api (RedirectResp 302 ''javascript:alert(1)'') \<and>
           (\<exists>p. fst (visit rnd t1 env origin (''/code/'' @ c) sv1) = Document (RootLayout (StatsDoc (StatsView p))) \<and>
                p_target_href p = ''javascript:alert(1)'')"
proof -
  let ?u = "''javascript:alert(1)''"
  define l where "l = new_link (db sv) t0 c ?u"
  define sv1 where "sv1 = sv\<lparr>db := db sv\<lparr>rows := rows (db sv) @ [l], next_id := Suc (next_id (db sv))\<rparr>\<rparr>"
  have c: "c \<noteq> []" "CHR ''/'' \<notin> set c" using valid_code_segment [OF assms(2)] by simp_all
  have cr: "create (db sv) t0 c ?u = Inr (l, db sv1)" using assms(1,3) by (simp add: create_def l_def sv1_def)
  have lu: "targetUrl l = ?u" by (simp add: l_def new_link_def)
  have post: "serve rnd t0 (PostLinks (PostBody (Some ?u) (Some c))) sv = Some (JsonResp 201 (LinkBody l), sv1)"
    using assms c(1) isValidUrl_javascript cr
    by (simp add: serve_def links_POST_def post_explicit_fresh create_link_def sv1_def)
  have con: "connected (db sv1)" using assms(1) by (simp add: sv1_def)
  have m: "store_map (db sv1) c = Some l" using store_map_create [OF cr] by simp
  obtain st' where rd: "redirect_GET t1 c (db sv1) = (RedirectResp 302 (targetUrl l), st')"
    using redirect_GET_update [OF con m] by blast
  have "fst (visit rnd t1 env origin (''/'' @ c) sv1) = Api (RedirectResp 302 ?u)"
    using rd lu split_code_paths(1) [OF c(2)] c(1) by (simp add: visit_def route_def api_request_def serve_def)
  moreover have "fst (visit rnd t1 env origin (''/code/'' @ c) sv1) =
                   Document (RootLayout (StatsDoc (StatsView (panel_of t1 origin (link_to_json l)))))"
    using stats_page_row [OF con m c(1), of t1 env True origin] split_code_paths(2) [OF c(2)] c(1)
    by (simp add: visit_def route_def stats_baseUrl_def)
  moreover have "p_target_href (panel_of t1 origin (link_to_json l)) = ?u"
    using lu by (simp add: panel_of_def Let_def link_to_json_def)
  ultimately show ?thesis using post by blast
qed

lemma js_includes_Nil: "js_includes s []"
  by (auto simp: js_includes_def list_ex_iff intro: bexI [of _ 0])

lemma filteredLinks_all: "searchTerm d = [] \<Longrightarrow> filteredLinks d = links d"
  by (simp add: filteredLinks_def js_lower_def js_includes_Nil)

lemma link_times_ok_set_clicks:
  "link_times_ok l \<Longrightarrow> now \<le> 8640000000000000 \<Longrightarrow> link_times_ok (set_clicks now n now l)"
  by (simp add: link_times_ok_def set_clicks_def)

text \<open>
  Claim C29: the short URL the dashboard's copy button writes, opened on the app at
  the base it was built from, reaches the redirect route of the code, which answers
  302 to the row's target and counts one click at that time.
\<close>

theorem copied_short_url_redirects:
  assumes "connected (db sv)" and "store_map (db sv) c = Some l" and "isValidCode c"
  shows "fst (copyToClipboard env origin c d) = copy_baseUrl env origin @ ''/'' @ c \<and>
         (\<exists>sv'. visit rnd now env' (copy_baseUrl env origin)
                    (drop (length (copy_baseUrl env origin)) (fst (copyToClipboard env origin c d))) sv =
                  (Api (RedirectResp 302 (targetUrl l)), sv') \<and>
                store_map (db sv') = (store_map (db sv))(c \<mapsto> set_clicks now (Suc (clicks l)) now l))"
proof -
  have c: "c \<noteq> []" "CHR ''/'' \<notin> set c" using valid_code_segment [OF assms(3)] by simp_all
  obtain st' where rd: "redirect_GET now c (db sv) = (RedirectResp 302 (targetUrl l), st')"
      and m: "store_map st' = (store_map (db sv))(c \<mapsto> set_clicks now (Suc (clicks l)) now l)"
    using redirect_GET_update [OF assms(1,2)] by blast
  have "visit rnd now env' (copy_baseUrl env origin) (''/'' @ c) sv = (Api (RedirectResp 302 (targetUrl l)), sv\<lparr>db := st'\<rparr>)"
    using rd split_code_paths(1) [OF c(2)] c(1) by (simp add: visit_def route_def api_request_def serve_def)
  then show ?thesis using m by (simp add: copyToClipboard_def short_url_def Let_def)
qed

text \<open>
  Claim C17: after a redirect of a code, the dashboard's next fetch (on mount or
  every 30 seconds) lists that code's row with one more click and the redirect's
  time as its last click, while the search box is empty.
\<close>

theorem dashboard_refresh_clicks:
  assumes "connected (db sv)" and "store_map (db sv) c = Some l" and "link_times_ok l"
    and "now \<le> 8640000000000000" and "searchTerm d = []"
    and "serve rnd now (GetRedirect c) sv = Some (r, sv')"
    and "dash_step rnd' now' EvFetch d sv' = Some (d', sv'')"
  shows "\<exists>rs. v_list (dash_render d') = ListRows rs \<and>
           (\<exists>row\<in>set rs. r_code row = c \<and> r_targetUrl row = targetUrl l \<and>
              r_clicks row = Suc (clicks l) \<and> r_lastClicked row = Some (Some (int now)))"
proof -
  obtain st' where rd: "redirect_GET now c (db sv) = (RedirectResp 302 (targetUrl l), st')"
      and con: "connected st'" and m: "store_map st' = (store_map (db sv))(c \<mapsto> set_clicks now (Suc (clicks l)) now l)"
    using redirect_GET_update [OF assms(1,2)] by blast
  define l' where "l' = set_clicks now (Suc (clicks l)) now l"
  have sv': "sv' = sv\<lparr>db := st'\<rparr>" using assms(6) rd by (simp add: serve_def)
  have d': "d' = d\<lparr>links := server_view sv', dbConnected := True, error := None, loading := False\<rparr>"
    using assms(7) con sv' by (auto simp: dash_step_def fetchLinks_srv_connected)
  have "l' \<in> set (rows st')" using m store_map_Some [of st' c l'] by (simp add: l'_def)
  then have l: "l' \<in> set (links d')" using sv' d' by (simp add: server_view_def)
  then have v: "v_list (dash_render d') = ListRows (map row_of (links d'))"
    using assms(5) d' by (auto simp: dash_render_def filteredLinks_all)
  have "row_of l' \<in> set (map row_of (links d'))" using l by simp
  moreover have "row_of l' = \<lparr>r_key = link_id l, r_code = c, r_targetUrl = targetUrl l, r_clicks = Suc (clicks l),
                   r_lastClicked = Some (Some (int now)), r_stats_href = ''/code/'' @ c\<rparr>"
    using row_of_json [OF link_times_ok_set_clicks [OF assms(3,4)]] store_map_Some [OF assms(2)]
    by (simp add: l'_def set_clicks_def)
  ultimately have "\<exists>row\<in>set (map row_of (links d')). r_code row = c \<and> r_targetUrl row = targetUrl l \<and>
                     r_clicks row = Suc (clicks l) \<and> r_lastClicked row = Some (Some (int now))"
    by (intro bexI [of _ "row_of l'"]) simp_all
  then show ?thesis using v by blast
qed

theorem client_paths_route_witness:
  "route (drop (length ''http://localhost:3000'') (short_url ''http://localhost:3000'' (code example_link))) =
     Some (RedirectRoute ''abc123'') \<and>
   route (r_stats_href (row_of example_link)) = Some (StatsPage ''abc123'') \<and>
   route (''/api/links/'' @ code example_link) = Some (LinkRoute ''abc123'')"
  using client_paths_route [of example_link "''http://localhost:3000''"] isValidCode_abc123
  by (simp add: example_link_def)

theorem dashboard_stats_link_witness:
  "\<exists>p. visit (\<lambda>_. 0) 0 None ''http://localhost:3000'' (r_stats_href (row_of example_link))
         \<lparr>db = example_store, rng_pos = 0\<rparr> =
       (Document (RootLayout (StatsDoc (StatsView p))), \<lparr>db = example_store, rng_pos = 0\<rparr>) \<and>
     p_code p = r_code (row_of example_link) \<and> p_clicks p = r_clicks (row_of example_link) \<and>
     p_target_href p = r_targetUrl (row_of example_link) \<and>
     p_lastClicked p = r_lastClicked (row_of example_link) \<and>
     p_shortUrl p = short_url ''http://localhost:3000'' (r_code (row_of example_link))"
proof -
  let ?sv = "\<lparr>db = example_store, rng_pos = 0\<rparr>"
  let ?d = "fetchLinks_srv ?sv dash_init"
  have ok: "link_times_ok example_link" by (simp add: example_link_def link_times_ok_def)
  have wf: "rows_wf example_store"
    using isValidCode_abc123 isValidUrl_example
    by (simp add: rows_wf_def row_wf_def example_store_def example_link_def)
  have ld: "links ?d = server_view ?sv"
    by (simp add: fetchLinks_srv_def links_GET_def findMany_def fetchLinks_def resp_ok_def resp_status_def
        server_view_def example_store_def)
  have vl: "v_list (dash_render ?d) = ListRows [row_of example_link]"
    by (simp add: dash_render_def fetchLinks_srv_def links_GET_def findMany_def fetchLinks_def resp_ok_def
        resp_status_def filteredLinks_def js_includes_def js_lower_def dash_init_def example_store_def)
  show ?thesis
    using dashboard_stats_link [of ?sv ?d "[row_of example_link]" "row_of example_link" "\<lambda>_. 0" 0 None
        "''http://localhost:3000''"] ok wf ld vl
    by (simp add: example_store_simps) (simp add: example_store_def)
qed

theorem javascript_target_served_witness:
  "\<exists>l sv1. serve (\<lambda>_. 0) 0 (PostLinks (PostBody (Some ''javascript:alert(1)'') (Some ''abc123''))) example_server =
                 Some (JsonResp 201 (LinkBody l), sv1) \<and>
         fst (visit (\<lambda>_. 0) 5 None ''http://localhost:3000'' ''/abc123'' sv1) =
           Api (RedirectResp 302 ''javascript:alert(1)'') \<and>
         (\<exists>p. fst (visit (\<lambda>_. 0) 5 None ''http://localhost:3000'' ''/code/abc123'' sv1) =
                Document (RootLayout (StatsDoc (StatsView p))) \<and> p_target_href p = ''javascript:alert(1)'')"
  using javascript_target_served [of example_server "''abc123''" "\<lambda>_. 0" 0 5 None "''http://localhost:3000''"]
    isValidCode_abc123
  by (simp add: example_server_def empty_store_def codes_def)

theorem copied_short_url_redirects_witness:
  "fst (copyToClipboard None ''http://localhost:3000'' ''abc123'' dash_init) = ''http://localhost:3000/abc123'' \<and>
   (\<exists>sv'. visit (\<lambda>_. 0) 5 None ''http://localhost:3000'' ''/abc123'' \<lparr>db = example_store, rng_pos = 0\<rparr> =
            (Api (RedirectResp 302 ''https://example.com/a''), sv') \<and>
          store_map (db sv') = (store_map example_store)(''abc123'' \<mapsto> set_clicks 5 1 5 example_link))"
proof -
  have t: "targetUrl example_link = ''https://example.com/a''" "clicks example_link = 0"
    by (simp_all add: example_link_def)
  show ?thesis
    using copied_short_url_redirects [of "\<lparr>db = example_store, rng_pos = 0\<rparr>" "''abc123''" example_link None
        "''http://localhost:3000''" dash_init "\<lambda>_. 0" 5 None] example_store_simps isValidCode_abc123 t
    by (simp add: copy_baseUrl_def copyToClipboard_def short_url_def Let_def)
qed

theorem dashboard_refresh_clicks_witness:
  "\<exists>r sv' d' sv''. serve (\<lambda>_. 0) 5 (GetRedirect ''abc123'') \<lparr>db = example_store, rng_pos = 0\<rparr> = Some (r, sv') \<and>
     dash_step (\<lambda>_. 0) 6 EvFetch dash_init sv' = Some (d', sv'') \<and>
     (\<exists>rs. v_list (dash_render d') = ListRows rs \<and>
        (\<exists>row\<in>set rs. r_code row = ''abc123'' \<and> r_targetUrl row = ''https://example.com/a'' \<and>
           r_clicks row = 1 \<and> r_lastClicked row = Some (Some 5)))"
proof -
  have "\<exists>r sv'. serve (\<lambda>_. 0) 5 (GetRedirect ''abc123'') \<lparr>db = example_store, rng_pos = 0\<rparr> = Some (r, sv')"
    by (simp add: serve_def split: prod.split)
  then obtain r sv' where s: "serve (\<lambda>_. 0) 5 (GetRedirect ''abc123'') \<lparr>db = example_store, rng_pos = 0\<rparr> = Some (r, sv')"
    by blast
  obtain d' sv'' where f: "dash_step (\<lambda>_. 0) 6 EvFetch dash_init sv' = Some (d', sv'')"
    by (simp add: dash_step_def)
  have ok: "link_times_ok example_link" by (simp add: example_link_def link_times_ok_def)
  have st: "searchTerm dash_init = []" by (simp add: dash_init_def)
  from dashboard_refresh_clicks [OF _ _ ok _ st s f] example_store_simps
  show ?thesis using s f by (auto simp: example_link_def)
qed

end
