(* ===== verification/Spec2Isabelle.thy ===== *)
theory Spec2Isabelle
  imports Interleaving App
begin

text \<open>
  \<^bold>\<open>TinyLink: a verification development.\<close>
  TinyLink is a Next.js URL shortener. Its server side is three route files
  over one Prisma table \<open>Link\<close>: \<open>src/app/[code]/route.ts\<close> (the redirect),
  \<open>src/app/api/links/route.ts\<close> (create and list) and
  \<open>src/app/api/links/[code]/route.ts\<close> (read and delete one link), with the
  helpers of \<open>src/lib/utils.ts\<close> (code generator and validators). Its client
  side is the dashboard \<open>src/app/page.tsx\<close> and the statistics page
  \<open>src/app/code/[code]/page.tsx\<close>, which call the routes with \<open>fetch\<close>,
  both inside the root layout \<open>src/app/layout.tsx\<close>; the Next.js app router
  maps each path to one of these files.
  This development is a shallow embedding of all of them, one theory per
  part, each importing the parts it calls:

  \<^item> \<open>Prelude\<close>: type names (\<open>code_str\<close>, \<open>url\<close>, \<open>time\<close> in milliseconds,
    \<open>rng\<close> for the values successive \<open>Math.random()\<close> calls return, as a function
    of the call index), JavaScript truthiness of an optional field, ASCII
    digits and their decimal value, the \<open>store_simps\<close> collection and list
    lemmas shared by the component proofs.
  \<^item> \<open>Generator\<close> (\<open>utils.ts\<close>, \<open>generateRandomCode\<close>): the 62-character
    alphabet, \<open>charAt\<close>, the \<open>for\<close> loop \<open>gen_loop\<close> (terminating by the measure
    \<open>len - i\<close>); it consumes one random value per character and returns the
    index of the next. Lemmas: the loop equals the reference \<open>code_of_draws\<close>,
    the code has the requested length over the alphabet when every value is in
    \<open>[0, 1)\<close>, and which interval of values yields each character.
  \<^item> \<open>Validator\<close> (\<open>utils.ts\<close>, \<open>isValidCode\<close>, \<open>isValidUrl\<close>): a backtracking
    matcher for the regular expressions the code uses (\<open>rx_match\<close>, terminating
    by the measures size and repetition bound) and \<open>/^[A-Za-z0-9]{6,8}$/\<close> as a
    term; \<open>new URL(u)\<close> as a model of the WHATWG URL parser restricted to what
    decides success: the scheme, the authority of special and \<open>file\<close> URLs
    with the IPv4 parser for a host that ends in a number, the authority of
    non-special URLs, host code points and ports.
    Lemmas: \<open>isValidCode\<close> holds exactly for 6 to 8 alphanumeric characters; the
    URL validator requires a scheme, accepts \<open>javascript:\<close> URLs, and accepts
    an \<open>https\<close> URL with a host of letters, digits, dots and hyphens exactly
    when the host does not end in a number or is a valid IPv4 address.
  \<^item> \<open>Store\<close> (the Prisma client): the \<open>Link\<close> row as a record, the table as a
    list of rows with the next id and a \<open>connected\<close> flag, the queries
    \<open>findUnique\<close>, \<open>create\<close>, \<open>update\<close>, \<open>delete\<close>, \<open>findMany\<close> with errors as
    \<open>db_error + _\<close> (unique violation, record not found, unavailable). The
    abstraction \<open>store_map\<close> maps codes to rows; \<open>store_inv\<close> (unique codes and ids,
    ids below the counter, a click time on clicked rows) is kept by every query.
  \<^item> \<open>Handlers\<close> (the three route files): one definition per handler and per
    branch of \<open>POST /api/links\<close> (\<open>post_explicit\<close>, \<open>post_generated\<close>,
    \<open>create_link\<close>), the collision loop \<open>find_free_code\<close> as a
    \<open>partial_function (option)\<close>, since it stops only when a free code is drawn
    (\<open>None\<close> is the loop that never ends), and \<open>serve\<close>, the dispatch of one request
    on the server state (table and random index). Lemmas: each handler's answer
    on each branch, the loop's result is the first free attempt and it diverges
    exactly when every attempt is taken, every answered request keeps
    \<open>store_inv\<close> and the well-formedness of stored rows (\<open>rows_wf\<close>: valid code,
    non-empty valid URL), and a created link is what reading it answers.
  \<^item> \<open>Interleaving\<close>: the handlers split at their \<open>await\<close>s into atomic query
    steps (\<open>step\<close> on a program counter \<open>pc\<close>), the inductive relation \<open>istep\<close>
    that lets any unfinished request move, and the fuelled run \<open>run\<close> of one
    request alone. Lemmas: \<open>store_inv\<close> holds in every reachable state (rule
    induction on \<open>istep\<close>); a request run alone answers exactly what \<open>serve\<close>
    answers (refinement; the fuel is existential, one unit per query, as many as
    the collision loop needs); and concrete interleavings that lose a click,
    lower the click count, answer 500 to the loser of a create race, and
    answer 500 to a redirect whose row a delete removed; in general \<open>n\<close>
    concurrent redirects add between 1 and \<open>n\<close> clicks (rule induction with the
    invariant \<open>redir_inv\<close>).
  \<^item> \<open>Dashboard\<close> (\<open>page.tsx\<close>): the React state as a record, each handler split
    at its \<open>fetch\<close> into a request part and a response part that receives the
    \<open>links\<close> array its closure captured, the copy button's text, the search
    filter, \<open>dash_step\<close>, one user event run against the server model, and
    \<open>dash_render\<close>, what the page shows of the state, each listed row
    (\<open>row_of\<close>) read from the row's JSON. The dashboard keeps its rows as
    \<open>link\<close> records and applies the JSON encoding of \<open>Wire\<close> where a row is
    shown, an abstraction of the JSON objects it holds that loses nothing
    (theory \<open>Wire\<close>). Lemmas: the search matches
    case-insensitive substrings; every event keeps the client's list equal to
    the server's listing; a delete that completes during a create is undone
    on screen; an unreachable database shows as disconnected, not as empty.
  \<^item> \<open>Dates\<close> (the JavaScript built-ins the route and the page call, from the
    ECMAScript specification): \<open>Date.prototype.toISOString\<close> as
    \<open>iso_string\<close>, through \<open>DayFromYear\<close>, year and month splitting on the
    proleptic Gregorian calendar and the extended \<open>+YYYYYY\<close> years, and
    \<open>Date.parse\<close> on the UTC form \<open>YYYY-MM-DDTHH:mm:ss.sssZ\<close> as
    \<open>iso_parse\<close>, each field read at its position and range-checked. Lemma:
    parsing what \<open>toISOString\<close> writes gives back the time, for every time up
    to the 8.64e15 ms a \<open>Date\<close> holds.
  \<^item> \<open>Wire\<close>: the \<open>Link\<close> JSON the pages receive, its dates the
    \<open>toISOString\<close> strings \<open>NextResponse.json\<close> writes (\<open>link_to_json\<close>).
    Lemma: the dates survive the trip through JSON (used by the page lemmas).
  \<^item> \<open>Stats\<close> (\<open>code/[code]/page.tsx\<close>): the page state, its two effects,
    and the statistics panel it renders (\<open>panel_of\<close>: every value the JSX
    shows, from the code to the clicks per day, with the dates read back by
    \<open>new Date(...)\<close>; a string \<open>Date.parse\<close> rejects gives \<open>NaN\<close>, here
    \<open>None\<close>). Lemmas: the page shows the server's row as stored, with its age
    in days and clicks per day computed from the stored creation time, or
    \<open>Link not found\<close> also on a database failure; its short URL ignores
    \<open>NEXT_PUBLIC_BASE_URL\<close>, unlike the dashboard's copy button.
  \<^item> \<open>App\<close> (\<open>layout.tsx\<close> and the Next.js app router): \<open>metadata\<close> and
    \<open>RootLayout\<close>; \<open>route\<close>, which matches a path to a page or route file
    of \<open>src/app\<close> (static segments before dynamic ones); \<open>api_request\<close>,
    the exported method handler a request reaches; and \<open>visit\<close>, a browser
    navigation that renders a page after its mount effects or answers from a
    route. Lemmas: the paths the pages build from a valid code (short URL,
    statistics link, API path) route back to that code's files; the
    statistics link of any row the dashboard lists opens a statistics page
    that agrees with the row; a link created with the hostless target
    \<open>javascript:alert(1)\<close> is served as it is, as the redirect's
    \<open>Location\<close> and as the href of the statistics page's target links.
    The short URL the copy button writes redirects to the row's target and
    counts a click; after a redirect the dashboard's next fetch shows the
    row with the new count and last click.
  \<^item> This theory: \<open>serve_seq\<close>, a session of requests each sent after the
    previous answer; the example of the specification run end to end through
    \<open>serve\<close> (create, redirect, read); and sequential redirects adding exactly
    their number of clicks, beside the interleaved ones of \<open>Interleaving\<close>
    that do not.

  Bounds and loops: \<open>gen_loop\<close> and \<open>rx_match\<close> are total by their measures;
  \<open>find_free_code\<close> is partial and its divergence is characterised, not
  assumed away; \<open>run\<close> takes fuel and the refinement lemma quantifies over it.
  Click counts are unbounded \<open>nat\<close> (Postgres \<open>Int\<close> overflow is out of reach of
  the model). Characters are Latin-1 (\<open>char\<close>), so JavaScript's \<open>trim\<close> and
  \<open>toLowerCase\<close> are modelled on that range. Times are \<open>nat\<close> milliseconds
  since the epoch (the server's clock never precedes 1970); the date lemmas
  assume each stored time at most 8.64e15, the largest time value a \<open>Date\<close>
  holds, so \<open>toISOString\<close> never throws a \<open>RangeError\<close> on them.

  Not modelled: markup and styling (the stylesheet \<open>globals.css\<close>,
  animations, hover handlers), the static text of the pages, the
  \<open>navigator.clipboard\<close> call itself and \<open>alert\<close>, date display (\<open>toLocaleDateString\<close>, which depends on
  the browser's locale and time zone), \<open>toFixed\<close>, the forms of \<open>Date.parse\<close>
  other than the one \<open>toISOString\<close> writes, the router's trailing-slash
  redirects and percent-decoding of path segments, network failures of \<open>fetch\<close>, the database module that opens the
  Prisma client (not among the sources), and, of the URL parser, the
  percent-decoding of hosts, the Punycode check of \<open>xn--\<close> labels, IPv6
  hosts, and the path, query and fragment, which never decide success.
\<close>

section \<open>Sessions of sequential requests\<close>

text \<open>
  A client that sends each request after the previous answer: the requests
  with their arrival times, served one at a time; \<open>None\<close> when one of them
  does not return.
\<close>

fun serve_seq :: "rng \<Rightarrow> (time \<times> request) list \<Rightarrow> server \<Rightarrow> (response list \<times> server) option" where
  "serve_seq rnd [] sv = Some ([], sv)"
| "serve_seq rnd ((t, rq) # xs) sv =
     (case serve rnd t rq sv of
        None \<Rightarrow> None
      | Some (r, sv1) \<Rightarrow>
          (case serve_seq rnd xs sv1 of None \<Rightarrow> None | Some (rs, sv2) \<Rightarrow> Some (r # rs, sv2)))"

section \<open>Properties across the components\<close>

lemma serve_connected:
  "serve rnd now rq sv = Some (r, sv') \<Longrightarrow> connected (db sv') = connected (db sv)"
  by (auto simp: serve_def store_simps split: request.splits prod.splits
      dest!: redirect_GET_cases links_POST_cases link_DELETE_cases)

text \<open>
  Claim C10: the example of the specification, for any answered create without a code: the
  new code has six characters, redirecting it answers 302 to the requested URL, and
  reading the link afterwards shows one click, made at the time of the redirect.
\<close>

theorem spec_example_flow:
  assumes draws: "\<forall>k. valid_draw (rnd k)" and con: "connected (db sv)"
    and post: "serve rnd t0 (PostLinks (PostBody (Some u) None)) sv = Some (JsonResp 201 (LinkBody l), sv1)"
  shows "length (code l) = 6 \<and>
         (\<exists>sv2 l'. serve rnd t1 (GetRedirect (code l)) sv1 = Some (RedirectResp 302 u, sv2) \<and>
                   serve rnd t2 (GetLink (code l)) sv2 = Some (JsonResp 200 (LinkBody l'), sv2) \<and>
                   code l' = code l \<and> targetUrl l' = u \<and> clicks l' = 1 \<and> lastClicked l' = Some t1)"
proof -
  have p: "links_POST rnd t0 (PostBody (Some u) None) sv = Some (JsonResp 201 (LinkBody l), sv1)"
    using post by (simp add: serve_def)
  from links_POST_generated_row [OF draws p]
  have len: "length (code l) = 6" and l: "targetUrl l = u" "clicks l = 0"
    and m1: "store_map (db sv1) (code l) = Some l" by auto
  have con1: "connected (db sv1)" using serve_connected [OF post] con by simp
  from redirect_GET_update [OF con1 m1, of t1] obtain st2 where
    rd: "redirect_GET t1 (code l) (db sv1) = (RedirectResp 302 (targetUrl l), st2)" and con2: "connected st2"
    and m2: "store_map st2 (code l) = Some (set_clicks t1 (Suc (clicks l)) t1 l)" by auto
  have r: "serve rnd t1 (GetRedirect (code l)) sv1 = Some (RedirectResp 302 u, sv1\<lparr>db := st2\<rparr>)"
    using rd l by (simp add: serve_def)
  have g: "serve rnd t2 (GetLink (code l)) (sv1\<lparr>db := st2\<rparr>) =
             Some (JsonResp 200 (LinkBody (set_clicks t1 (Suc (clicks l)) t1 l)), sv1\<lparr>db := st2\<rparr>)"
    using link_GET_found [OF con2 m2] by (simp add: serve_def)
  with len r g l show ?thesis by (auto simp: set_clicks_def)
qed

text \<open>
  Claim C11: redirects of one code sent one after another each answer 302 to the
  stored URL, and together raise the click count by exactly their number, with
  \<open>lastClicked\<close> and \<open>updatedAt\<close> the time of the last one; no other row changes.
\<close>

theorem redirect_sequential:
  assumes "connected (db sv)" and "store_map (db sv) c = Some l" and "ts \<noteq> []"
  shows "\<exists>sv'. serve_seq rnd (map (\<lambda>t. (t, GetRedirect c)) ts) sv =
                 Some (replicate (length ts) (RedirectResp 302 (targetUrl l)), sv') \<and>
               store_map (db sv') =
                 (store_map (db sv))(c \<mapsto> set_clicks (last ts) (clicks l + length ts) (last ts) l)"
  using assms
proof (induction ts arbitrary: sv l)
  case Nil
  then show ?case by simp
next
  case (Cons t ts)
  from redirect_GET_update [OF Cons.prems(1,2), of t] obtain st1 where
    rd: "redirect_GET t c (db sv) = (RedirectResp 302 (targetUrl l), st1)" and con1: "connected st1"
    and m1: "store_map st1 = (store_map (db sv))(c \<mapsto> set_clicks t (Suc (clicks l)) t l)" by auto
  have s1: "serve rnd t (GetRedirect c) sv = Some (RedirectResp 302 (targetUrl l), sv\<lparr>db := st1\<rparr>)"
    using rd by (simp add: serve_def)
  show ?case
  proof (cases "ts = []")
    case True
    with s1 m1 show ?thesis by (simp add: fun_upd_def)
  next
    case False
    have "connected (db (sv\<lparr>db := st1\<rparr>))" "store_map (db (sv\<lparr>db := st1\<rparr>)) c = Some (set_clicks t (Suc (clicks l)) t l)"
      using con1 m1 by simp_all
    from Cons.IH [OF this False] obtain sv' where
      rest: "serve_seq rnd (map (\<lambda>t. (t, GetRedirect c)) ts) (sv\<lparr>db := st1\<rparr>) =
               Some (replicate (length ts) (RedirectResp 302 (targetUrl l)), sv')"
      and m': "store_map (db sv') = (store_map st1)(c \<mapsto> set_clicks (last ts) (Suc (clicks l) + length ts) (last ts) l)"
      by (auto simp: fun_upd_def)
    from s1 rest m' m1 False show ?thesis by (auto simp: fun_eq_iff)
  qed
qed

theorem redirect_sequential_witness:
  "serve_seq (\<lambda>_. 0) [(1, GetRedirect ''abc123''), (2, GetRedirect ''abc123''), (3, GetRedirect ''abc123'')]
     \<lparr>db = example_store, rng_pos = 0\<rparr> \<noteq> None"
proof -
  have c: "connected (db \<lparr>db = example_store, rng_pos = 0\<rparr>)"
    and m: "store_map (db \<lparr>db = example_store, rng_pos = 0\<rparr>) ''abc123'' = Some example_link"
    by (simp_all add: example_store_def example_link_def store_map_def)
  from redirect_sequential [OF c m, of "[1, 2, 3]" "\<lambda>_. 0"] show ?thesis by auto
qed

theorem spec_example_flow_witness:
  "length ''AAAAAA'' = 6 \<and>
   serve (\<lambda>_. 0) 1 (GetRedirect ''AAAAAA'')
     \<lparr>db = empty_store\<lparr>rows := [new_link empty_store 0 ''AAAAAA'' ''https://example.com/a''], next_id := 1\<rparr>,
      rng_pos = 6\<rparr> \<noteq> None"
proof -
  have d: "\<forall>k. valid_draw ((\<lambda>_. 0 :: rat) k)" by (simp add: valid_draw_def)
  have c: "connected (db example_server)" by (simp add: example_server_def empty_store_def)
  have p: "serve (\<lambda>_. 0) 0 (PostLinks (PostBody (Some ''https://example.com/a'') None)) example_server =
      Some (JsonResp 201 (LinkBody (new_link empty_store 0 ''AAAAAA'' ''https://example.com/a'')),
           \<lparr>db = empty_store\<lparr>rows := [new_link empty_store 0 ''AAAAAA'' ''https://example.com/a''], next_id := 1\<rparr>,
            rng_pos = 6\<rparr>)"
    using links_POST_example by (simp add: serve_def)
  from spec_example_flow [OF d c p, of 1 2] show ?thesis by (auto simp: new_link_def)
qed

end
